theory Spec2Isabelle
  imports Main
begin

section \<open>Tokens and syntax trees\<close>

text \<open>
  The token kinds and the token record of the type declarations
  (\<^verbatim>\<open>TokenType\<close>, \<^verbatim>\<open>Token = {type, value}\<close>).
\<close>

datatype TokenType =
  KEYWORD | IDENTIFIER | PLOT_FUNCTION | LPAREN | RPAREN | COMMA | STRING | NUMBER | NULL
  | COMPARISON_OPERATOR | LOGICAL_OPERATOR | AGGREGATION_FUNCTION | EOF

datatype Token = Token (ttype: TokenType) (tvalue: string)

text \<open>
  JavaScript numbers are IEEE doubles. The parser only ever builds one with
  \<^verbatim>\<open>Number(token.value)\<close> or the literal \<^verbatim>\<open>0\<close>. On a text of decimal digits that
  denotes an integer of at most \<open>2^53 = 9007199254740992\<close>, \<^verbatim>\<open>Number\<close> is that
  integer exactly; the conversion of every other text is kept unevaluated
  (\<open>Number_of\<close> the text).
\<close>

datatype jsnumber = Integer int | Number_of string

definition is_digit :: "char \<Rightarrow> bool" where
  "is_digit c = (c \<in> set ''0123456789'')"

definition digit_value :: "char \<Rightarrow> int" where
  "digit_value c = of_char c - 48"

definition decimal_value :: "string \<Rightarrow> int" where
  "decimal_value s = foldl (\<lambda>n c. 10 * n + digit_value c) 0 s"

definition Number :: "string \<Rightarrow> jsnumber" where
  "Number s =
     (if s = [] then Number_of s
      else if list_all is_digit s then
        (if decimal_value s \<le> 9007199254740992 then Integer (decimal_value s) else Number_of s)
      else Number_of s)"

text \<open>
  The predicate tree \<^verbatim>\<open>WhereCondition\<close>: eight variants. The right-hand side of an
  equality is a string, a number or \<^verbatim>\<open>null\<close>.
\<close>

datatype CompareValue = StringValue string | NumberValue jsnumber | NullValue

datatype WhereCondition =
    AndCondition "WhereCondition list"
  | OrCondition "WhereCondition list"
  | GreaterThanCondition string jsnumber
  | GreaterThanOrEqualCondition string jsnumber
  | LessThanCondition string jsnumber
  | LessThanOrEqualCondition string jsnumber
  | EqualCondition string CompareValue
  | NotEqualCondition string CompareValue

record LimitAndOffset =
  limit :: jsnumber
  offset :: jsnumber

text \<open>
  The column descriptor the compiled parser returns (\<^verbatim>\<open>{identifier, column,
  aggregationFunction}\<close>); \<^verbatim>\<open>undefined\<close> is \<open>None\<close>, and the field
  \<^verbatim>\<open>identifier\<close> is \<open>col_identifier\<close>. The aggregation function is the
  text of the token, cast without a check.
\<close>

record ColumnMetadata =
  col_identifier :: "string option"
  column :: "string option"
  aggregationFunction :: "string option"

text \<open>
  The column descriptor the TypeScript source returns (\<^verbatim>\<open>{column, displayName,
  aggregationFunction}\<close>).
\<close>

record ColumnMetadata_ts =
  column_ts :: "string option"
  displayName :: "string option"
  aggregationFunction_ts :: "string option"

text \<open>
  The plot clause of the compiled parser carries identifier strings, the one of the
  TypeScript source carries column descriptors.
\<close>

datatype PlotClause =
    BarPlotCall (plotFunction: string) (categoriesIdentifier: string) (valuesIdentifier: string)
  | PointPlotCall (plotFunction: string) (xIdentifier: string) (yIdentifier: string)

datatype PlotClause_ts =
    BarPlotCall_ts (plotFunction_ts: string) (categoriesColumn: ColumnMetadata_ts)
      (valuesColumn: ColumnMetadata_ts)
  | PointPlotCall_ts (plotFunction_ts: string) (xColumn: ColumnMetadata_ts)
      (yColumn: ColumnMetadata_ts)

record ('plot, 'col) SPLQuery =
  plotClause :: "'plot option"
  selectColumns :: "'col list"
  whereCondition :: "WhereCondition option"
  groupKey :: "string option"
  limitAndOffset :: "LimitAndOffset option"

section \<open>The error signal\<close>

text \<open>
  \<^verbatim>\<open>SPLError\<close> carries one message. The parser builds it from four templates, one
  constructor each, with the values the template interpolates:
  \<^item> \<^verbatim>\<open>Unexpected token ${JSON.stringify(currentToken)} at position ${currentPosition}\<close>
  \<^item> \<^verbatim>\<open>Invalid plot type ${plotFunction}\<close>
  \<^item> \<^verbatim>\<open>Invalid comparison operator ${comparisonOperator}\<close>
  \<^item> \<^verbatim>\<open>Equal comparison allowed only for string, number, and null\<close>
\<close>

datatype SPLError =
    UnexpectedToken Token nat
  | InvalidPlotType string
  | InvalidComparisonOperator string
  | EqualComparisonNotAllowed

text \<open>What a message interpolates: the offending token, the scan position.\<close>

fun message_token :: "SPLError \<Rightarrow> Token option" where
  "message_token (UnexpectedToken t pos) = Some t"
| "message_token (InvalidPlotType f) = None"
| "message_token (InvalidComparisonOperator c) = None"
| "message_token EqualComparisonNotAllowed = None"

fun message_position :: "SPLError \<Rightarrow> nat option" where
  "message_position (UnexpectedToken t pos) = Some pos"
| "message_position (InvalidPlotType f) = None"
| "message_position (InvalidComparisonOperator c) = None"
| "message_position EqualComparisonNotAllowed = None"

section \<open>The lexer\<close>

text \<open>
  Modelled from the spec: the Lexer (\<^verbatim>\<open>lexer.ts\<close> is not among the sources). The spec
  gives its contract: \<^verbatim>\<open>nextToken()\<close> returns the next token and advances the scan
  position, and returns an end-of-input token forever once the input is exhausted;
  \<^verbatim>\<open>currentPosition\<close> is the scan offset. The state is the tokens still to come, each
  with the scan offset reached once it is scanned, and the current offset. Any token
  may come: the parser is checked against every token stream, not only those of a
  particular tokenizer. The text of the end-of-input token is taken to be empty. A
  lexer that throws on text it does not recognize ends \<^verbatim>\<open>parse()\<close> without a
  result; that case has no state here.
\<close>

record Lexer =
  pending :: "(Token \<times> nat) list"
  currentPosition :: nat

definition nextToken :: "Lexer \<Rightarrow> Token \<times> Lexer" where
  "nextToken l =
     (case pending l of
        [] \<Rightarrow> (Token EOF [], l)
      | (t, pos) # rest \<Rightarrow> (t, \<lparr>pending = rest, currentPosition = pos\<rparr>))"

section \<open>The parser state and token consumption\<close>

text \<open>
  The two fields of the class \<^verbatim>\<open>Parser\<close>, the constructor (which reads the first
  token), and the assignment \<^verbatim>\<open>this._currentToken = this._lexer.nextToken()\<close>.
\<close>

record Parser =
  lexer :: Lexer
  currentToken :: Token

definition new_Parser :: "Lexer \<Rightarrow> Parser" where
  "new_Parser l = (case nextToken l of (t, l') \<Rightarrow> \<lparr>lexer = l', currentToken = t\<rparr>)"

definition advance :: "Parser \<Rightarrow> Parser" where
  "advance p = (case nextToken (lexer p) of (t, l') \<Rightarrow> \<lparr>lexer = l', currentToken = t\<rparr>)"

text \<open>Sequencing of two steps, the first of which may throw.\<close>

definition andThen :: "'e + 'a \<Rightarrow> ('a \<Rightarrow> 'e + 'b) \<Rightarrow> 'e + 'b" where
  "andThen m f = (case m of Inl e \<Rightarrow> Inl e | Inr x \<Rightarrow> f x)"

text \<open>
  JavaScript's \<^verbatim>\<open>!v\<close> on a value that is a string or \<^verbatim>\<open>undefined\<close>: it holds for
  \<^verbatim>\<open>undefined\<close> and for the empty string.
\<close>

definition falsy :: "string option \<Rightarrow> bool" where
  "falsy v = (case v of None \<Rightarrow> True | Some s \<Rightarrow> s = [])"

text \<open>\<^verbatim>\<open>_consumeToken(tokenType, value?)\<close>.\<close>

definition consumeToken ::
  "TokenType \<Rightarrow> string option \<Rightarrow> Parser \<Rightarrow> SPLError + (Token \<times> Parser)" where
  "consumeToken tokenType v p =
     (let token = currentToken p in
      if ttype token = tokenType \<and> (falsy v \<or> Some (tvalue token) = v)
      then Inr (token, advance p)
      else Inl (UnexpectedToken (currentToken p) (currentPosition (lexer p))))"

text \<open>\<^verbatim>\<open>_consumeComparisonValue\<close>: the token is taken before its kind is looked at.\<close>

definition consumeComparisonValue :: "Parser \<Rightarrow> SPLError + (CompareValue \<times> Parser)" where
  "consumeComparisonValue p =
     (let token = currentToken p; p1 = advance p in
      case ttype token of
        STRING \<Rightarrow> Inr (StringValue (tvalue token), p1)
      | NUMBER \<Rightarrow> Inr (NumberValue (Number (tvalue token)), p1)
      | NULL \<Rightarrow> Inr (NullValue, p1)
      | _ \<Rightarrow> Inl EqualComparisonNotAllowed)"

text \<open>
  \<^verbatim>\<open>Number(this._consumeToken("NUMBER").value)\<close>, which the source writes out at each
  of its uses.
\<close>

definition consumeNumber :: "Parser \<Rightarrow> SPLError + (jsnumber \<times> Parser)" where
  "consumeNumber p =
     andThen (consumeToken NUMBER None p) (\<lambda>(t, p1). Inr (Number (tvalue t), p1))"

text \<open>\<^verbatim>\<open>_consumeComparison\<close>: the switch on the operator's text.\<close>

definition consumeComparison :: "Parser \<Rightarrow> SPLError + (WhereCondition \<times> Parser)" where
  "consumeComparison p =
     andThen (consumeToken IDENTIFIER None p) (\<lambda>(k, p1).
     andThen (consumeToken COMPARISON_OPERATOR None p1) (\<lambda>(c, p2).
       let key = tvalue k; comparisonOperator = tvalue c in
       if comparisonOperator = ''>'' then
         andThen (consumeNumber p2) (\<lambda>(v, p3). Inr (GreaterThanCondition key v, p3))
       else if comparisonOperator = ''>='' then
         andThen (consumeNumber p2) (\<lambda>(v, p3). Inr (GreaterThanOrEqualCondition key v, p3))
       else if comparisonOperator = ''<'' then
         andThen (consumeNumber p2) (\<lambda>(v, p3). Inr (LessThanCondition key v, p3))
       else if comparisonOperator = ''<='' then
         andThen (consumeNumber p2) (\<lambda>(v, p3). Inr (LessThanOrEqualCondition key v, p3))
       else if comparisonOperator = ''='' then
         andThen (consumeComparisonValue p2) (\<lambda>(v, p3). Inr (EqualCondition key v, p3))
       else if comparisonOperator = ''!='' then
         andThen (consumeComparisonValue p2) (\<lambda>(v, p3). Inr (NotEqualCondition key v, p3))
       else Inl (InvalidComparisonOperator comparisonOperator)))"

section \<open>Columns and the select clause\<close>

text \<open>
  \<^verbatim>\<open>_consumeColumn\<close> opens with the same two steps in both files: the column or the
  aggregation call, then the optional alias.
\<close>

definition consumeColumnSource ::
  "Parser \<Rightarrow> SPLError + ((string option \<times> string option) \<times> Parser)" where
  "consumeColumnSource p =
     (if ttype (currentToken p) = AGGREGATION_FUNCTION then
        andThen (consumeToken AGGREGATION_FUNCTION None p) (\<lambda>(a, p1).
        andThen (consumeToken LPAREN None p1) (\<lambda>(l, p2).
        andThen
          (if tvalue a \<noteq> ''COUNT'' then
             andThen (consumeToken IDENTIFIER None p2) (\<lambda>(c, p3). Inr (Some (tvalue c), p3))
           else Inr (None, p2)) (\<lambda>(col, p3).
        andThen (consumeToken RPAREN None p3) (\<lambda>(r, p4).
          Inr ((col, Some (tvalue a)), p4)))))
      else
        andThen (consumeToken IDENTIFIER None p) (\<lambda>(c, p1).
          Inr ((Some (tvalue c), None), p1)))"

definition consumeAlias :: "Parser \<Rightarrow> SPLError + (string option \<times> Parser)" where
  "consumeAlias p =
     (if tvalue (currentToken p) = ''AS'' then
        andThen (consumeToken KEYWORD None p) (\<lambda>(k, p1).
        andThen (consumeToken IDENTIFIER None p1) (\<lambda>(d, p2). Inr (Some (tvalue d), p2)))
      else Inr (None, p))"

text \<open>
  The TypeScript source returns the alias as \<^verbatim>\<open>displayName\<close>, absent when none is
  given.
\<close>

definition consumeColumn_ts :: "Parser \<Rightarrow> SPLError + (ColumnMetadata_ts \<times> Parser)" where
  "consumeColumn_ts p =
     andThen (consumeColumnSource p) (\<lambda>((col, agg), p1).
     andThen (consumeAlias p1) (\<lambda>(alias, p2).
       Inr (\<lparr>column_ts = col, displayName = alias, aggregationFunction_ts = agg\<rparr>, p2)))"

text \<open>
  The compiled parser fills \<^verbatim>\<open>identifier\<close>: the alias unless \<^verbatim>\<open>!identifier\<close>, else
  \<^verbatim>\<open>`${aggregationFunction}(${column ?? ""})`\<close> if there is an aggregation function,
  else the column.
\<close>

definition synthesizeIdentifier ::
  "string option \<Rightarrow> string option \<Rightarrow> string option \<Rightarrow> string option" where
  "synthesizeIdentifier alias agg col =
     (if falsy alias then
        (if falsy agg then col
         else Some ((case agg of None \<Rightarrow> [] | Some a \<Rightarrow> a) @ ''('' @
                    (case col of None \<Rightarrow> [] | Some c \<Rightarrow> c) @ '')''))
      else alias)"

definition consumeColumn_js :: "Parser \<Rightarrow> SPLError + (ColumnMetadata \<times> Parser)" where
  "consumeColumn_js p =
     andThen (consumeColumnSource p) (\<lambda>((col, agg), p1).
     andThen (consumeAlias p1) (\<lambda>(alias, p2).
       Inr (\<lparr>col_identifier = synthesizeIdentifier alias agg col, column = col,
             aggregationFunction = agg\<rparr>, p2)))"

text \<open>
  The number of tokens the parser can still consume: those the lexer has not
  produced, and the current one unless it is the end of input.
\<close>

definition remaining :: "Parser \<Rightarrow> nat" where
  "remaining p =
     length (pending (lexer p)) + (if ttype (currentToken p) = EOF then 0 else 1)"

lemma remaining_advance: "remaining (advance p) \<le> remaining p"
  by (cases "pending (lexer p)")
     (auto simp: remaining_def advance_def nextToken_def split: prod.splits)

lemma remaining_advance_less:
  "ttype (currentToken p) \<noteq> EOF \<Longrightarrow> remaining (advance p) < remaining p"
  by (cases "pending (lexer p)")
     (auto simp: remaining_def advance_def nextToken_def split: prod.splits)

lemma consumeToken_Inr:
  "consumeToken ty v p = Inr (t, p') \<Longrightarrow> t = currentToken p \<and> ttype t = ty \<and> p' = advance p"
  by (auto simp: consumeToken_def Let_def split: if_splits)

lemma consumeToken_remaining:
  "consumeToken ty v p = Inr (t, p') \<Longrightarrow> ty \<noteq> EOF \<Longrightarrow> remaining p' < remaining p"
  using consumeToken_Inr [of ty v p t p'] remaining_advance_less [of p] by auto

lemma andThen_Inr:
  "andThen m f = Inr y \<Longrightarrow> \<exists>x. m = Inr x \<and> f x = Inr y"
  by (cases m) (auto simp: andThen_def)

lemma consumeColumnSource_remaining:
  "consumeColumnSource p = Inr (x, p') \<Longrightarrow> remaining p' < remaining p"
  unfolding consumeColumnSource_def
  by (auto split: if_splits dest!: andThen_Inr dest!: consumeToken_remaining)

lemma consumeAlias_remaining:
  "consumeAlias p = Inr (x, p') \<Longrightarrow> remaining p' \<le> remaining p"
  unfolding consumeAlias_def
  by (auto split: if_splits dest!: andThen_Inr dest!: consumeToken_remaining)

lemma consumeColumn_ts_remaining:
  "consumeColumn_ts p = Inr (x, p') \<Longrightarrow> remaining p' < remaining p"
  unfolding consumeColumn_ts_def
  by (auto dest!: andThen_Inr consumeColumnSource_remaining consumeAlias_remaining)

lemma consumeColumn_js_remaining:
  "consumeColumn_js p = Inr (x, p') \<Longrightarrow> remaining p' < remaining p"
  unfolding consumeColumn_js_def
  by (auto dest!: andThen_Inr consumeColumnSource_remaining consumeAlias_remaining)

text \<open>
  The loop of \<^verbatim>\<open>_consumeSelectClause\<close>:
  \<^verbatim>\<open>do { push(_consumeColumn()); _consumeToken("COMMA") } while (type !== "IDENTIFIER")\<close>,
  with the columns collected so far as an argument.
\<close>

function selectLoop_ts ::
  "ColumnMetadata_ts list \<Rightarrow> Parser \<Rightarrow> SPLError + (ColumnMetadata_ts list \<times> Parser)" where
  "selectLoop_ts cols p =
     (case consumeColumn_ts p of
        Inl e \<Rightarrow> Inl e
      | Inr (c, p1) \<Rightarrow>
          (case consumeToken COMMA None p1 of
             Inl e \<Rightarrow> Inl e
           | Inr (t, p2) \<Rightarrow>
               if ttype (currentToken p2) \<noteq> IDENTIFIER then selectLoop_ts (cols @ [c]) p2
               else Inr (cols @ [c], p2)))"
  by pat_completeness auto
termination
proof (relation "measure (\<lambda>(cols, p). remaining p)")
  show "wf (measure (\<lambda>(cols, p). remaining p))" by simp
next
  fix cols p x c p1 y t p2
  assume "consumeColumn_ts p = Inr x" "(c, p1) = x"
    "consumeToken COMMA None p1 = Inr y" "(t, p2) = y"
  then have "remaining p1 < remaining p" "remaining p2 < remaining p1"
    using consumeColumn_ts_remaining [of p c p1] consumeToken_remaining [of COMMA None p1 t p2]
    by auto
  then show "((cols @ [c], p2), (cols, p)) \<in> measure (\<lambda>(cols, p). remaining p)" by simp
qed

function selectLoop_js ::
  "ColumnMetadata list \<Rightarrow> Parser \<Rightarrow> SPLError + (ColumnMetadata list \<times> Parser)" where
  "selectLoop_js cols p =
     (case consumeColumn_js p of
        Inl e \<Rightarrow> Inl e
      | Inr (c, p1) \<Rightarrow>
          (case consumeToken COMMA None p1 of
             Inl e \<Rightarrow> Inl e
           | Inr (t, p2) \<Rightarrow>
               if ttype (currentToken p2) \<noteq> IDENTIFIER then selectLoop_js (cols @ [c]) p2
               else Inr (cols @ [c], p2)))"
  by pat_completeness auto
termination
proof (relation "measure (\<lambda>(cols, p). remaining p)")
  show "wf (measure (\<lambda>(cols, p). remaining p))" by simp
next
  fix cols p x c p1 y t p2
  assume "consumeColumn_js p = Inr x" "(c, p1) = x"
    "consumeToken COMMA None p1 = Inr y" "(t, p2) = y"
  then have "remaining p1 < remaining p" "remaining p2 < remaining p1"
    using consumeColumn_js_remaining [of p c p1] consumeToken_remaining [of COMMA None p1 t p2]
    by auto
  then show "((cols @ [c], p2), (cols, p)) \<in> measure (\<lambda>(cols, p). remaining p)" by simp
qed

text \<open>
  \<^verbatim>\<open>_consumeSelectClause\<close>: the compiled parser consumes the keyword \<^verbatim>\<open>SELECT\<close>
  first, the TypeScript source starts with the first column.
\<close>

definition consumeSelectClause_ts ::
  "Parser \<Rightarrow> SPLError + (ColumnMetadata_ts list \<times> Parser)" where
  "consumeSelectClause_ts p = selectLoop_ts [] p"

definition consumeSelectClause_js ::
  "Parser \<Rightarrow> SPLError + (ColumnMetadata list \<times> Parser)" where
  "consumeSelectClause_js p =
     andThen (consumeToken KEYWORD (Some ''SELECT'') p) (\<lambda>(k, p1). selectLoop_js [] p1)"

section \<open>The plot clause\<close>

text \<open>
  \<^verbatim>\<open>_consumePlotArgs\<close>, the switch on the plot function's text. The compiled parser
  reads two identifier tokens, the TypeScript source two columns.
\<close>

definition consumePlotArgs_js :: "string \<Rightarrow> Parser \<Rightarrow> SPLError + (PlotClause \<times> Parser)" where
  "consumePlotArgs_js plotFn p =
     (if plotFn = ''BAR'' then
        andThen (consumeToken IDENTIFIER None p) (\<lambda>(categoriesToken, p1).
        andThen (consumeToken COMMA None p1) (\<lambda>(c, p2).
        andThen (consumeToken IDENTIFIER None p2) (\<lambda>(valuesToken, p3).
          Inr (BarPlotCall plotFn (tvalue categoriesToken) (tvalue valuesToken), p3))))
      else if plotFn = ''LINE'' \<or> plotFn = ''SCATTER'' then
        andThen (consumeToken IDENTIFIER None p) (\<lambda>(xToken, p1).
        andThen (consumeToken COMMA None p1) (\<lambda>(c, p2).
        andThen (consumeToken IDENTIFIER None p2) (\<lambda>(yToken, p3).
          Inr (PointPlotCall plotFn (tvalue xToken) (tvalue yToken), p3))))
      else Inl (InvalidPlotType plotFn))"

definition consumePlotArgs_ts ::
  "string \<Rightarrow> Parser \<Rightarrow> SPLError + (PlotClause_ts \<times> Parser)" where
  "consumePlotArgs_ts plotFn p =
     (if plotFn = ''BAR'' then
        andThen (consumeColumn_ts p) (\<lambda>(categoriesCol, p1).
        andThen (consumeToken COMMA None p1) (\<lambda>(c, p2).
        andThen (consumeColumn_ts p2) (\<lambda>(valuesCol, p3).
          Inr (BarPlotCall_ts plotFn categoriesCol valuesCol, p3))))
      else if plotFn = ''LINE'' \<or> plotFn = ''SCATTER'' then
        andThen (consumeColumn_ts p) (\<lambda>(xCol, p1).
        andThen (consumeToken COMMA None p1) (\<lambda>(c, p2).
        andThen (consumeColumn_ts p2) (\<lambda>(yCol, p3).
          Inr (PointPlotCall_ts plotFn xCol yCol, p3))))
      else Inl (InvalidPlotType plotFn))"

text \<open>
  \<^verbatim>\<open>_consumePlotClauseOptional\<close> is the same text in both files; it calls the
  file's own \<^verbatim>\<open>_consumePlotArgs\<close>, here the argument \<open>plotArgs\<close>.
\<close>

definition consumePlotClauseOptional ::
  "(string \<Rightarrow> Parser \<Rightarrow> SPLError + ('plot \<times> Parser)) \<Rightarrow> Parser
     \<Rightarrow> SPLError + ('plot option \<times> Parser)" where
  "consumePlotClauseOptional plotArgs p =
     (if tvalue (currentToken p) \<noteq> ''PLOT'' then Inr (None, p)
      else
        andThen (consumeToken KEYWORD (Some ''PLOT'') p) (\<lambda>(k, p1).
        andThen (consumeToken PLOT_FUNCTION None p1) (\<lambda>(f, p2).
        andThen (consumeToken LPAREN None p2) (\<lambda>(l, p3).
        andThen (plotArgs (tvalue f) p3) (\<lambda>(plot, p4).
        andThen (consumeToken RPAREN None p4) (\<lambda>(r, p5). Inr (Some plot, p5)))))))"

section \<open>The where clause\<close>

text \<open>
  \<^verbatim>\<open>_consumeCondition\<close> and \<^verbatim>\<open>_consumeConditionGroup\<close> call each other, and
  \<^verbatim>\<open>_consumeCondition\<close> is two nested loops. The first argument bounds the depth of
  calls and loop rounds: every call and every round takes one unit, and \<open>None\<close> is
  the bound reached before the parser returned or threw.
  \<^item> \<open>consumeCondition_inner\<close> is the loop \<^verbatim>\<open>while (value === "AND")\<close>, with
    \<^verbatim>\<open>innerConditions\<close> as an argument;
  \<^item> \<open>consumeCondition_outer\<close> is the loop \<^verbatim>\<open>while (true)\<close>, with \<^verbatim>\<open>filters\<close>
    as an argument. It steps over \<^verbatim>\<open>OR\<close> with \<^verbatim>\<open>nextToken()\<close>, with no check of
    the token's kind.
\<close>

fun consumeConditionGroup ::
    "nat \<Rightarrow> Parser \<Rightarrow> (SPLError + (WhereCondition \<times> Parser)) option"
  and consumeCondition_inner ::
    "nat \<Rightarrow> WhereCondition list \<Rightarrow> Parser
       \<Rightarrow> (SPLError + (WhereCondition list \<times> Parser)) option"
  and consumeCondition_outer ::
    "nat \<Rightarrow> WhereCondition list \<Rightarrow> Parser \<Rightarrow> (SPLError + (WhereCondition \<times> Parser)) option"
  where
  "consumeConditionGroup 0 p = None"
| "consumeConditionGroup (Suc n) p =
     (if ttype (currentToken p) = IDENTIFIER then Some (consumeComparison p)
      else
        (case consumeToken LPAREN None p of
           Inl e \<Rightarrow> Some (Inl e)
         | Inr (l, p1) \<Rightarrow>
             (case consumeCondition_outer n [] p1 of
                None \<Rightarrow> None
              | Some (Inl e) \<Rightarrow> Some (Inl e)
              | Some (Inr (condition, p2)) \<Rightarrow>
                  (case consumeToken RPAREN None p2 of
                     Inl e \<Rightarrow> Some (Inl e)
                   | Inr (r, p3) \<Rightarrow> Some (Inr (condition, p3))))))"
| "consumeCondition_inner 0 innerConditions p = None"
| "consumeCondition_inner (Suc n) innerConditions p =
     (if tvalue (currentToken p) = ''AND'' then
        (case consumeToken LOGICAL_OPERATOR None p of
           Inl e \<Rightarrow> Some (Inl e)
         | Inr (a, p1) \<Rightarrow>
             (case consumeConditionGroup n p1 of
                None \<Rightarrow> None
              | Some (Inl e) \<Rightarrow> Some (Inl e)
              | Some (Inr (g, p2)) \<Rightarrow> consumeCondition_inner n (innerConditions @ [g]) p2))
      else Some (Inr (innerConditions, p)))"
| "consumeCondition_outer 0 filters p = None"
| "consumeCondition_outer (Suc n) filters p =
     (case consumeConditionGroup n p of
        None \<Rightarrow> None
      | Some (Inl e) \<Rightarrow> Some (Inl e)
      | Some (Inr (g, p1)) \<Rightarrow>
          (case consumeCondition_inner n [g] p1 of
             None \<Rightarrow> None
           | Some (Inl e) \<Rightarrow> Some (Inl e)
           | Some (Inr (innerConditions, p2)) \<Rightarrow>
               (let innerCondition =
                      (if length innerConditions = 1 then innerConditions ! 0
                       else AndCondition innerConditions);
                    filters' = filters @ [innerCondition]
                in
                  if tvalue (currentToken p2) \<noteq> ''OR'' then
                    Some (Inr (if length filters' = 1 then filters' ! 0
                               else OrCondition filters', p2))
                  else consumeCondition_outer n filters' (advance p2))))"

definition consumeCondition ::
  "nat \<Rightarrow> Parser \<Rightarrow> (SPLError + (WhereCondition \<times> Parser)) option" where
  "consumeCondition n p = consumeCondition_outer n [] p"

definition consumeWhereClauseOptional ::
  "nat \<Rightarrow> Parser \<Rightarrow> (SPLError + (WhereCondition option \<times> Parser)) option" where
  "consumeWhereClauseOptional n p =
     (if tvalue (currentToken p) \<noteq> ''WHERE'' then Some (Inr (None, p))
      else
        (case consumeToken KEYWORD None p of
           Inl e \<Rightarrow> Some (Inl e)
         | Inr (k, p1) \<Rightarrow>
             (case consumeCondition n p1 of
                None \<Rightarrow> None
              | Some (Inl e) \<Rightarrow> Some (Inl e)
              | Some (Inr (c, p2)) \<Rightarrow> Some (Inr (Some c, p2)))))"

section \<open>Group key, limit and offset\<close>

definition consumeGroupByClauseOptional :: "Parser \<Rightarrow> SPLError + (string option \<times> Parser)" where
  "consumeGroupByClauseOptional p =
     (if tvalue (currentToken p) \<noteq> ''GROUPBY'' then Inr (None, p)
      else
        andThen (consumeToken KEYWORD None p) (\<lambda>(k, p1).
        andThen (consumeToken IDENTIFIER None p1) (\<lambda>(g, p2). Inr (Some (tvalue g), p2))))"

definition consumeLimitAndOffsetClauseOptional ::
  "Parser \<Rightarrow> SPLError + (LimitAndOffset option \<times> Parser)" where
  "consumeLimitAndOffsetClauseOptional p =
     (if tvalue (currentToken p) \<noteq> ''LIMIT'' then Inr (None, p)
      else
        andThen (consumeToken KEYWORD None p) (\<lambda>(k, p1).
        andThen (consumeNumber p1) (\<lambda>(lim, p2).
          if tvalue (currentToken p2) \<noteq> ''OFFSET''
          then Inr (Some \<lparr>limit = lim, offset = Integer 0\<rparr>, p2)
          else
            andThen (consumeToken KEYWORD None p2) (\<lambda>(k', p3).
            andThen (consumeNumber p3) (\<lambda>(off, p4).
              Inr (Some \<lparr>limit = lim, offset = off\<rparr>, p4))))))"

section \<open>The query\<close>

text \<open>
  \<^verbatim>\<open>parse()\<close> is the same text in both files: the five clauses in order, then the
  end of input. \<open>plotArgs\<close> and \<open>selectClause\<close> are the file's own
  \<^verbatim>\<open>_consumePlotArgs\<close> and \<^verbatim>\<open>_consumeSelectClause\<close>; \<open>n\<close> bounds the where clause.
\<close>

definition parse ::
  "(string \<Rightarrow> Parser \<Rightarrow> SPLError + ('plot \<times> Parser))
     \<Rightarrow> (Parser \<Rightarrow> SPLError + ('col list \<times> Parser))
     \<Rightarrow> nat \<Rightarrow> Parser \<Rightarrow> (SPLError + ('plot, 'col) SPLQuery) option" where
  "parse plotArgs selectClause n p =
     (case consumePlotClauseOptional plotArgs p of
        Inl e \<Rightarrow> Some (Inl e)
      | Inr (plot, p1) \<Rightarrow>
     (case selectClause p1 of
        Inl e \<Rightarrow> Some (Inl e)
      | Inr (cols, p2) \<Rightarrow>
     (case consumeWhereClauseOptional n p2 of
        None \<Rightarrow> None
      | Some (Inl e) \<Rightarrow> Some (Inl e)
      | Some (Inr (cond, p3)) \<Rightarrow>
     (case consumeGroupByClauseOptional p3 of
        Inl e \<Rightarrow> Some (Inl e)
      | Inr (gk, p4) \<Rightarrow>
     (case consumeLimitAndOffsetClauseOptional p4 of
        Inl e \<Rightarrow> Some (Inl e)
      | Inr (lo, p5) \<Rightarrow>
     (case consumeToken EOF None p5 of
        Inl e \<Rightarrow> Some (Inl e)
      | Inr (t, p6) \<Rightarrow>
          Some (Inr \<lparr>plotClause = plot, selectColumns = cols, whereCondition = cond,
                      groupKey = gk, limitAndOffset = lo\<rparr>)))))))"

definition parse_ts ::
  "nat \<Rightarrow> Parser \<Rightarrow> (SPLError + (PlotClause_ts, ColumnMetadata_ts) SPLQuery) option" where
  "parse_ts = parse consumePlotArgs_ts consumeSelectClause_ts"

definition parse_js ::
  "nat \<Rightarrow> Parser \<Rightarrow> (SPLError + (PlotClause, ColumnMetadata) SPLQuery) option" where
  "parse_js = parse consumePlotArgs_js consumeSelectClause_js"

section \<open>Example queries\<close>

text \<open>
  The queries of the examples, as the token streams the spec's tokenization rules give
  for them (keywords, function names, operators, literals and punctuation as kinds of
  their own, everything else word-like an identifier), each token with the offset of
  the end of its text. \<open>parser_from ts\<close> is the parser constructed on a lexer
  that is about to produce \<open>ts\<close>; \<open>parser_from (drop k ts)\<close> is the parser
  with the token number \<open>k\<close> of \<open>ts\<close> as its current token.
\<close>

definition parser_from :: "(Token \<times> nat) list \<Rightarrow> Parser" where
  "parser_from ts = new_Parser \<lparr>pending = ts, currentPosition = 0\<rparr>"

text \<open>\<^verbatim>\<open>SELECT x WHERE a=1 OR b=2 AND c=3\<close>\<close>

definition select_x_where_or_and :: "(Token \<times> nat) list" where
  "select_x_where_or_and =
    [(Token KEYWORD ''SELECT'', 6), (Token IDENTIFIER ''x'', 8), (Token KEYWORD ''WHERE'', 14),
     (Token IDENTIFIER ''a'', 16), (Token COMPARISON_OPERATOR ''='', 17),
     (Token NUMBER ''1'', 18), (Token LOGICAL_OPERATOR ''OR'', 21),
     (Token IDENTIFIER ''b'', 23), (Token COMPARISON_OPERATOR ''='', 24),
     (Token NUMBER ''2'', 25), (Token LOGICAL_OPERATOR ''AND'', 29),
     (Token IDENTIFIER ''c'', 31), (Token COMPARISON_OPERATOR ''='', 32),
     (Token NUMBER ''3'', 33)]"

text \<open>\<^verbatim>\<open>SELECT a WHERE (a>1)\<close>\<close>

definition select_a_where_grouped :: "(Token \<times> nat) list" where
  "select_a_where_grouped =
    [(Token KEYWORD ''SELECT'', 6), (Token IDENTIFIER ''a'', 8), (Token KEYWORD ''WHERE'', 14),
     (Token LPAREN ''('', 16), (Token IDENTIFIER ''a'', 17),
     (Token COMPARISON_OPERATOR ''>'', 18), (Token NUMBER ''1'', 19), (Token RPAREN '')'', 20)]"

text \<open>\<^verbatim>\<open>SELECT a\<close>\<close>

definition select_a :: "(Token \<times> nat) list" where
  "select_a =
    [(Token KEYWORD ''SELECT'', 6), (Token IDENTIFIER ''a'', 8)]"

text \<open>\<^verbatim>\<open>SELECT a GROUPBY a\<close>\<close>

definition select_a_groupby :: "(Token \<times> nat) list" where
  "select_a_groupby =
    [(Token KEYWORD ''SELECT'', 6), (Token IDENTIFIER ''a'', 8),
     (Token KEYWORD ''GROUPBY'', 16), (Token IDENTIFIER ''a'', 18)]"

text \<open>\<^verbatim>\<open>SELECT a, b\<close>\<close>

definition select_a_b :: "(Token \<times> nat) list" where
  "select_a_b =
    [(Token KEYWORD ''SELECT'', 6), (Token IDENTIFIER ''a'', 8), (Token COMMA '','', 9),
     (Token IDENTIFIER ''b'', 11)]"

text \<open>\<^verbatim>\<open>SELECT a LIMIT 10\<close>\<close>

definition select_a_limit :: "(Token \<times> nat) list" where
  "select_a_limit =
    [(Token KEYWORD ''SELECT'', 6), (Token IDENTIFIER ''a'', 8), (Token KEYWORD ''LIMIT'', 14),
     (Token NUMBER ''10'', 17)]"

text \<open>\<^verbatim>\<open>SELECT a LIMIT 10 OFFSET 5\<close>\<close>

definition select_a_limit_offset :: "(Token \<times> nat) list" where
  "select_a_limit_offset =
    [(Token KEYWORD ''SELECT'', 6), (Token IDENTIFIER ''a'', 8), (Token KEYWORD ''LIMIT'', 14),
     (Token NUMBER ''10'', 17), (Token KEYWORD ''OFFSET'', 24), (Token NUMBER ''5'', 26)]"

text \<open>\<^verbatim>\<open>SELECT COUNT() AS total, AVG(x) AS avgx WHERE x>0\<close>\<close>

definition select_aliased :: "(Token \<times> nat) list" where
  "select_aliased =
    [(Token KEYWORD ''SELECT'', 6), (Token AGGREGATION_FUNCTION ''COUNT'', 12),
     (Token LPAREN ''('', 13), (Token RPAREN '')'', 14), (Token KEYWORD ''AS'', 17),
     (Token IDENTIFIER ''total'', 23), (Token COMMA '','', 24),
     (Token AGGREGATION_FUNCTION ''AVG'', 28), (Token LPAREN ''('', 29),
     (Token IDENTIFIER ''x'', 30), (Token RPAREN '')'', 31), (Token KEYWORD ''AS'', 34),
     (Token IDENTIFIER ''avgx'', 39), (Token KEYWORD ''WHERE'', 45),
     (Token IDENTIFIER ''x'', 47), (Token COMPARISON_OPERATOR ''>'', 48),
     (Token NUMBER ''0'', 49)]"

text \<open>\<^verbatim>\<open>PLOT BAR(category, value) SELECT category, value\<close>\<close>

definition plot_bar :: "(Token \<times> nat) list" where
  "plot_bar =
    [(Token KEYWORD ''PLOT'', 4), (Token PLOT_FUNCTION ''BAR'', 8), (Token LPAREN ''('', 9),
     (Token IDENTIFIER ''category'', 17), (Token COMMA '','', 18),
     (Token IDENTIFIER ''value'', 24), (Token RPAREN '')'', 25),
     (Token KEYWORD ''SELECT'', 32), (Token IDENTIFIER ''category'', 41),
     (Token COMMA '','', 42), (Token IDENTIFIER ''value'', 48)]"

text \<open>\<^verbatim>\<open>PLOT LINE(x, y) SELECT x, y\<close>\<close>

definition plot_line :: "(Token \<times> nat) list" where
  "plot_line =
    [(Token KEYWORD ''PLOT'', 4), (Token PLOT_FUNCTION ''LINE'', 9), (Token LPAREN ''('', 10),
     (Token IDENTIFIER ''x'', 11), (Token COMMA '','', 12), (Token IDENTIFIER ''y'', 14),
     (Token RPAREN '')'', 15), (Token KEYWORD ''SELECT'', 22), (Token IDENTIFIER ''x'', 24),
     (Token COMMA '','', 25), (Token IDENTIFIER ''y'', 27)]"

text \<open>\<^verbatim>\<open>SELECT a WHERE a = TRUE\<close>\<close>

definition select_eq_true :: "(Token \<times> nat) list" where
  "select_eq_true =
    [(Token KEYWORD ''SELECT'', 6), (Token IDENTIFIER ''a'', 8), (Token KEYWORD ''WHERE'', 14),
     (Token IDENTIFIER ''a'', 16), (Token COMPARISON_OPERATOR ''='', 18),
     (Token IDENTIFIER ''TRUE'', 23)]"

text \<open>\<^verbatim>\<open>SELECT a LIMIT 10 x\<close>\<close>

definition select_a_limit_garbage :: "(Token \<times> nat) list" where
  "select_a_limit_garbage =
    [(Token KEYWORD ''SELECT'', 6), (Token IDENTIFIER ''a'', 8), (Token KEYWORD ''LIMIT'', 14),
     (Token NUMBER ''10'', 17), (Token IDENTIFIER ''x'', 19)]"

text \<open>\<^verbatim>\<open>SELECT AVG(x), b\<close>\<close>

definition select_avg :: "(Token \<times> nat) list" where
  "select_avg =
    [(Token KEYWORD ''SELECT'', 6), (Token AGGREGATION_FUNCTION ''AVG'', 10),
     (Token LPAREN ''('', 11), (Token IDENTIFIER ''x'', 12), (Token RPAREN '')'', 13),
     (Token COMMA '','', 14), (Token IDENTIFIER ''b'', 16)]"

text \<open>\<^verbatim>\<open>PLOT BAR(COUNT(), total)\<close>\<close>

definition plot_bar_count :: "(Token \<times> nat) list" where
  "plot_bar_count =
    [(Token KEYWORD ''PLOT'', 4), (Token PLOT_FUNCTION ''BAR'', 8), (Token LPAREN ''('', 9),
     (Token AGGREGATION_FUNCTION ''COUNT'', 14), (Token LPAREN ''('', 15),
     (Token RPAREN '')'', 16), (Token COMMA '','', 17), (Token IDENTIFIER ''total'', 23),
     (Token RPAREN '')'', 24)]"

section \<open>Notions of the statements\<close>

text \<open>
  The data-model invariant of the spec on predicate trees: every \<^verbatim>\<open>and\<close> and every
  \<^verbatim>\<open>or\<close> node has at least two children.
\<close>

fun well_formed :: "WhereCondition \<Rightarrow> bool" where
  "well_formed (AndCondition cs) = (2 \<le> length cs \<and> list_all well_formed cs)"
| "well_formed (OrCondition cs) = (2 \<le> length cs \<and> list_all well_formed cs)"
| "well_formed (GreaterThanCondition k v) = True"
| "well_formed (GreaterThanOrEqualCondition k v) = True"
| "well_formed (LessThanCondition k v) = True"
| "well_formed (LessThanOrEqualCondition k v) = True"
| "well_formed (EqualCondition k v) = True"
| "well_formed (NotEqualCondition k v) = True"

text \<open>
  The text of the token after the current one, and the token after that: in a
  comparison, the operator and the right-hand operand.
\<close>

definition operatorText :: "Parser \<Rightarrow> string" where
  "operatorText p = tvalue (currentToken (advance p))"

definition operand :: "Parser \<Rightarrow> Token" where
  "operand p = currentToken (advance (advance p))"

text \<open>
  The alias that follows a column: the text of the token after \<^verbatim>\<open>AS\<close>, when the
  current token reads \<^verbatim>\<open>AS\<close>.
\<close>

definition aliasText :: "Parser \<Rightarrow> string option" where
  "aliasText p1 =
     (if tvalue (currentToken p1) = ''AS'' then Some (tvalue (currentToken (advance p1)))
      else None)"

text \<open>
  The descriptor of the TypeScript source, read as the compiled parser writes it; a
  result with its value so converted; the columns that are an identifier alone; a plot
  clause of such columns as identifier strings.
\<close>

definition toCompiled :: "ColumnMetadata_ts \<Rightarrow> ColumnMetadata" where
  "toCompiled c =
     \<lparr>col_identifier =
        synthesizeIdentifier (displayName c) (aggregationFunction_ts c) (column_ts c),
      column = column_ts c, aggregationFunction = aggregationFunction_ts c\<rparr>"

definition compiled :: "SPLError + ('a \<times> Parser) \<Rightarrow> ('a \<Rightarrow> 'b) \<Rightarrow> SPLError + ('b \<times> Parser)" where
  "compiled r f = (case r of Inl e \<Rightarrow> Inl e | Inr (x, p) \<Rightarrow> Inr (f x, p))"

fun bare :: "ColumnMetadata_ts \<Rightarrow> bool" where
  "bare c = (aggregationFunction_ts c = None \<and> displayName c = None)"

fun bare_plot :: "PlotClause_ts \<Rightarrow> bool" where
  "bare_plot (BarPlotCall_ts f c v) = (bare c \<and> bare v)"
| "bare_plot (PointPlotCall_ts f x y) = (bare x \<and> bare y)"

fun toCompiledPlot :: "PlotClause_ts \<Rightarrow> PlotClause" where
  "toCompiledPlot (BarPlotCall_ts f c v) =
     BarPlotCall f (case column_ts c of None \<Rightarrow> [] | Some x \<Rightarrow> x)
       (case column_ts v of None \<Rightarrow> [] | Some x \<Rightarrow> x)"
| "toCompiledPlot (PointPlotCall_ts f x y) =
     PointPlotCall f (case column_ts x of None \<Rightarrow> [] | Some a \<Rightarrow> a)
       (case column_ts y of None \<Rightarrow> [] | Some a \<Rightarrow> a)"

text \<open>
  \<open>sees p ts\<close>: the tokens the parser reads next, from its current token on, are
  \<open>ts\<close>.
\<close>

fun sees :: "Parser \<Rightarrow> Token list \<Rightarrow> bool" where
  "sees p [] = True"
| "sees p (t # ts) = (currentToken p = t \<and> sees (advance p) ts)"

text \<open>
  The grammar of the spec for conditions, written from its words and not from the
  code. A comparison is \<^verbatim>\<open>IDENT compareOp comparisonValue\<close>, where a relational
  operator takes a number and \<^verbatim>\<open>=\<close>, \<^verbatim>\<open>!=\<close> take a string, a number or
  \<^verbatim>\<open>NULL\<close>; \<open>spec_comparison\<close> is its tree.
\<close>

type_synonym comparison = "Token \<times> Token \<times> Token"

fun spec_comparison :: "comparison \<Rightarrow> WhereCondition option" where
  "spec_comparison (k, c, v) =
     (if ttype k = IDENTIFIER \<and> ttype c = COMPARISON_OPERATOR then
        (if tvalue c \<in> {''>'', ''>='', ''<'', ''<=''} then
           (if ttype v = NUMBER then
              Some ((if tvalue c = ''>'' then GreaterThanCondition
                     else if tvalue c = ''>='' then GreaterThanOrEqualCondition
                     else if tvalue c = ''<'' then LessThanCondition
                     else LessThanOrEqualCondition) (tvalue k) (Number (tvalue v)))
            else None)
         else if tvalue c \<in> {''='', ''!=''} then
           (case (case ttype v of
                    STRING \<Rightarrow> Some (StringValue (tvalue v))
                  | NUMBER \<Rightarrow> Some (NumberValue (Number (tvalue v)))
                  | NULL \<Rightarrow> Some NullValue
                  | _ \<Rightarrow> None) of
              None \<Rightarrow> None
            | Some x \<Rightarrow>
                Some ((if tvalue c = ''='' then EqualCondition else NotEqualCondition)
                        (tvalue k) x))
         else None)
      else None)"

text \<open>
  A condition is a sequence of groups separated by \<^verbatim>\<open>OR\<close>, a group a sequence of
  units separated by \<^verbatim>\<open>AND\<close>, a unit a comparison or a condition in parentheses.
  \<open>condition_tokens gs\<close> are the tokens that spell the groups \<open>gs\<close>.
\<close>

datatype condition_unit = Comparison Token Token Token | Grouped "condition_unit list list"

fun separated :: "Token \<Rightarrow> Token list list \<Rightarrow> Token list" where
  "separated s [] = []"
| "separated s [x] = x"
| "separated s (x # y # ys) = x @ s # separated s (y # ys)"

fun unit_tokens :: "condition_unit \<Rightarrow> Token list" where
  "unit_tokens (Comparison k c v) = [k, c, v]"
| "unit_tokens (Grouped gs) =
     Token LPAREN ''('' #
     separated (Token LOGICAL_OPERATOR ''OR'')
       (map (\<lambda>g. separated (Token LOGICAL_OPERATOR ''AND'') (map unit_tokens g)) gs) @
     [Token RPAREN '')'']"

definition and_group_tokens :: "condition_unit list \<Rightarrow> Token list" where
  "and_group_tokens g = separated (Token LOGICAL_OPERATOR ''AND'') (map unit_tokens g)"

definition condition_tokens :: "condition_unit list list \<Rightarrow> Token list" where
  "condition_tokens gs = separated (Token LOGICAL_OPERATOR ''OR'') (map and_group_tokens gs)"

text \<open>
  The tree the spec gives: a sequence of one element is that element, a longer one is
  wrapped (in \<^verbatim>\<open>and\<close> for a group, in \<^verbatim>\<open>or\<close> for a condition); there is none
  when a comparison is not one of the grammar, or a sequence is empty.
\<close>

definition collapsed ::
  "(WhereCondition list \<Rightarrow> WhereCondition) \<Rightarrow> WhereCondition option list \<Rightarrow> WhereCondition option"
  where
  "collapsed wrap ws =
     (case those ws of
        None \<Rightarrow> None
      | Some [] \<Rightarrow> None
      | Some [c] \<Rightarrow> Some c
      | Some cs \<Rightarrow> Some (wrap cs))"

fun spec_unit :: "condition_unit \<Rightarrow> WhereCondition option" where
  "spec_unit (Comparison k c v) = spec_comparison (k, c, v)"
| "spec_unit (Grouped gs) =
     collapsed OrCondition (map (\<lambda>g. collapsed AndCondition (map spec_unit g)) gs)"

definition spec_group :: "condition_unit list \<Rightarrow> WhereCondition option" where
  "spec_group g = collapsed AndCondition (map spec_unit g)"

definition spec_where :: "condition_unit list list \<Rightarrow> WhereCondition option" where
  "spec_where gs = collapsed OrCondition (map spec_group gs)"

text \<open>
  A depth that suffices for the where clause on the groups \<open>gs\<close>, from the depths
  of their units: a comparison takes one call, a condition in parentheses one more
  than its condition, the \<^verbatim>\<open>AND\<close> loop a round for every unit and one to stop, the
  \<^verbatim>\<open>OR\<close> loop a round for every group.
\<close>

fun inner_depth :: "nat list \<Rightarrow> nat" where
  "inner_depth [] = 1"
| "inner_depth (d # ds) = Suc (max d (inner_depth ds))"

fun group_depth :: "nat list \<Rightarrow> nat" where
  "group_depth [] = 0"
| "group_depth (d # ds) = max d (inner_depth ds)"

fun outer_depth :: "nat list list \<Rightarrow> nat" where
  "outer_depth [] = 0"
| "outer_depth (g # gs) = Suc (max (group_depth g) (outer_depth gs))"

fun unit_depth :: "condition_unit \<Rightarrow> nat" where
  "unit_depth (Comparison k c v) = 1"
| "unit_depth (Grouped gs) = Suc (outer_depth (map (map unit_depth) gs))"

definition condition_depth :: "condition_unit list list \<Rightarrow> nat" where
  "condition_depth gs = outer_depth (map (map unit_depth) gs)"

text \<open>
  A unit is read as the grammar says when, at every depth from its own on and before
  whatever tokens follow, \<^verbatim>\<open>_consumeConditionGroup\<close> returns its tree and stops
  behind its tokens.
\<close>

definition reads_unit :: "condition_unit \<Rightarrow> bool" where
  "reads_unit u \<longleftrightarrow>
     (\<forall>w p rest n. spec_unit u = Some w \<longrightarrow> sees p (unit_tokens u @ rest) \<longrightarrow>
        unit_depth u \<le> n \<longrightarrow>
        (\<exists>p'. consumeConditionGroup n p = Some (Inr (w, p')) \<and> sees p' rest))"

section \<open>Token consumption\<close>

lemma consumeToken_mismatch:
  "ttype (currentToken p) \<noteq> ty \<Longrightarrow>
     consumeToken ty v p = Inl (UnexpectedToken (currentToken p) (currentPosition (lexer p)))"
  by (simp add: consumeToken_def Let_def)

lemma consumeToken_match:
  "ttype (currentToken p) = ty \<Longrightarrow> consumeToken ty None p = Inr (currentToken p, advance p)"
  by (simp add: consumeToken_def falsy_def)

lemma consumeToken_Inl:
  "consumeToken ty v p = Inl e \<Longrightarrow>
     e = UnexpectedToken (currentToken p) (currentPosition (lexer p))"
  by (auto simp: consumeToken_def Let_def split: if_splits)

lemma end_of_input_check:
  "consumeToken EOF None p =
     (if ttype (currentToken p) = EOF then Inr (currentToken p, advance p)
      else Inl (UnexpectedToken (currentToken p) (currentPosition (lexer p))))"
  by (simp add: consumeToken_def falsy_def)

lemma consumeToken_sees:
  assumes "sees p (t # rest)" "ttype t = ty"
  shows "consumeToken ty None p = Inr (t, advance p)"
  using assms by (simp add: consumeToken_def falsy_def)

lemma consumeNumber_cases:
  "consumeNumber p =
     (if ttype (currentToken p) = NUMBER then Inr (Number (tvalue (currentToken p)), advance p)
      else Inl (UnexpectedToken (currentToken p) (currentPosition (lexer p))))"
  by (simp add: consumeNumber_def consumeToken_def falsy_def andThen_def)

lemma consumeComparisonValue_Inr:
  "(\<exists>r. consumeComparisonValue p = Inr r) \<longleftrightarrow>
     ttype (currentToken p) \<in> {STRING, NUMBER, NULL}"
  by (cases "ttype (currentToken p)") (simp_all add: consumeComparisonValue_def Let_def)

lemma consumeComparisonValue_Inl:
  "consumeComparisonValue p = Inl e \<Longrightarrow> e = EqualComparisonNotAllowed"
  by (cases "ttype (currentToken p)") (simp_all add: consumeComparisonValue_def Let_def)

lemma andThen_is_Inr:
  "(\<exists>r. andThen m (\<lambda>(v, p). Inr (f v p)) = Inr r) \<longleftrightarrow> (\<exists>r. m = Inr r)"
  by (cases m) (auto simp: andThen_def)

section \<open>The select loop never leaves a query to accept\<close>

declare selectLoop_js.simps [simp del] selectLoop_ts.simps [simp del]

lemma selectLoop_js_result:
  "selectLoop_js cols p = Inr (cs, p') \<Longrightarrow>
     ttype (currentToken p') = IDENTIFIER \<and> length cols < length cs"
proof (induction cols p rule: selectLoop_js.induct)
  case (1 cols p)
  from "1.prems" obtain c p1 t p2 where
    c: "consumeColumn_js p = Inr (c, p1)" and t: "consumeToken COMMA None p1 = Inr (t, p2)"
    by (subst (asm) selectLoop_js.simps) (auto split: sum.splits)
  show ?case
  proof (cases "ttype (currentToken p2) = IDENTIFIER")
    case True
    with "1.prems" c t show ?thesis
      by (subst (asm) selectLoop_js.simps) auto
  next
    case False
    with "1.prems" c t have "selectLoop_js (cols @ [c]) p2 = Inr (cs, p')"
      by (subst (asm) selectLoop_js.simps) auto
    with "1.IH" [OF c refl t refl False] show ?thesis by auto
  qed
qed

lemma selectLoop_ts_result:
  "selectLoop_ts cols p = Inr (cs, p') \<Longrightarrow>
     ttype (currentToken p') = IDENTIFIER \<and> length cols < length cs"
proof (induction cols p rule: selectLoop_ts.induct)
  case (1 cols p)
  from "1.prems" obtain c p1 t p2 where
    c: "consumeColumn_ts p = Inr (c, p1)" and t: "consumeToken COMMA None p1 = Inr (t, p2)"
    by (subst (asm) selectLoop_ts.simps) (auto split: sum.splits)
  show ?case
  proof (cases "ttype (currentToken p2) = IDENTIFIER")
    case True
    with "1.prems" c t show ?thesis
      by (subst (asm) selectLoop_ts.simps) auto
  next
    case False
    with "1.prems" c t have "selectLoop_ts (cols @ [c]) p2 = Inr (cs, p')"
      by (subst (asm) selectLoop_ts.simps) auto
    with "1.IH" [OF c refl t refl False] show ?thesis by auto
  qed
qed

lemma consumeSelectClause_js_result:
  "consumeSelectClause_js p = Inr (cs, p') \<Longrightarrow>
     ttype (currentToken p') = IDENTIFIER \<and> 1 \<le> length cs"
  by (cases cs) (auto simp: consumeSelectClause_js_def dest!: andThen_Inr selectLoop_js_result)

lemma consumeSelectClause_ts_result:
  "consumeSelectClause_ts p = Inr (cs, p') \<Longrightarrow>
     ttype (currentToken p') = IDENTIFIER \<and> 1 \<le> length cs"
  by (cases cs) (auto simp: consumeSelectClause_ts_def dest!: selectLoop_ts_result)

lemma where_after_identifier:
  "ttype (currentToken p) = IDENTIFIER \<Longrightarrow>
     consumeWhereClauseOptional n p = Some (Inr (None, p)) \<or>
     (\<exists>e. consumeWhereClauseOptional n p = Some (Inl e))"
  by (simp add: consumeWhereClauseOptional_def consumeToken_mismatch)

lemma groupBy_after_identifier:
  "ttype (currentToken p) = IDENTIFIER \<Longrightarrow>
     consumeGroupByClauseOptional p = Inr (None, p) \<or>
     (\<exists>e. consumeGroupByClauseOptional p = Inl e)"
  by (simp add: consumeGroupByClauseOptional_def consumeToken_mismatch andThen_def)

lemma limit_after_identifier:
  "ttype (currentToken p) = IDENTIFIER \<Longrightarrow>
     consumeLimitAndOffsetClauseOptional p = Inr (None, p) \<or>
     (\<exists>e. consumeLimitAndOffsetClauseOptional p = Inl e)"
  by (simp add: consumeLimitAndOffsetClauseOptional_def consumeToken_mismatch andThen_def)

text \<open>
  Whatever select clause leaves an identifier as the current token leaves nothing that
  the rest of \<^verbatim>\<open>parse()\<close> can accept: the three optional clauses start with a
  keyword, and the last step wants the end of input.
\<close>

lemma parse_rejects:
  assumes sel:
    "\<And>p cs p'. selectClause p = Inr (cs, p') \<Longrightarrow> ttype (currentToken p') = IDENTIFIER"
  shows "\<exists>e. parse plotArgs selectClause n p = Some (Inl e)"
proof (cases "consumePlotClauseOptional plotArgs p")
  case (Inl e)
  then show ?thesis by (simp add: parse_def)
next
  case (Inr r)
  obtain plot p1 where r: "r = (plot, p1)" by (cases r)
  show ?thesis
  proof (cases "selectClause p1")
    case (Inl e)
    with Inr r show ?thesis by (simp add: parse_def)
  next
    case sel_ok: (Inr s)
    obtain cs p2 where s: "s = (cs, p2)" by (cases s)
    from sel sel_ok s have ident: "ttype (currentToken p2) = IDENTIFIER" by simp
    have eof: "consumeToken EOF None p2 =
        Inl (UnexpectedToken (currentToken p2) (currentPosition (lexer p2)))"
      using ident by (simp add: consumeToken_mismatch)
    from where_after_identifier [OF ident, of n] groupBy_after_identifier [OF ident]
      limit_after_identifier [OF ident] eof Inr r sel_ok s
    show ?thesis
      by (auto simp: parse_def)
  qed
qed

lemma parse_js_rejects: "\<exists>e. parse_js n p = Some (Inl e)"
  unfolding parse_js_def
  by (rule parse_rejects) (simp add: consumeSelectClause_js_result)

lemma parse_ts_rejects: "\<exists>e. parse_ts n p = Some (Inl e)"
  unfolding parse_ts_def
  by (rule parse_rejects) (simp add: consumeSelectClause_ts_result)

section \<open>Columns and plot arguments\<close>

lemma consumeColumnSource_count:
  assumes "consumeColumnSource p = Inr ((col, agg), p1)"
  shows "(agg = Some ''COUNT'' \<longrightarrow> col = None) \<and> (agg \<noteq> Some ''COUNT'' \<longrightarrow> col \<noteq> None)"
  using assms unfolding consumeColumnSource_def
  by (auto split: if_splits dest!: andThen_Inr)

lemma consumeAlias_result:
  assumes "consumeAlias p1 = Inr (als, p2)"
  shows "als = (if tvalue (currentToken p1) = ''AS''
                  then Some (tvalue (currentToken (advance p1))) else None)"
  using assms unfolding consumeAlias_def
  by (auto split: if_splits dest!: andThen_Inr dest: consumeToken_Inr)

lemma consumeColumn_ts_parts:
  assumes "consumeColumn_ts p = Inr (d, p')"
  shows "\<exists>p1. consumeColumnSource p = Inr ((column_ts d, aggregationFunction_ts d), p1) \<and>
     consumeAlias p1 = Inr (displayName d, p')"
  using assms unfolding consumeColumn_ts_def
  by (auto dest!: andThen_Inr)

lemma consumeColumn_js_parts:
  assumes "consumeColumn_js p = Inr (c, p')"
  shows "\<exists>p1 als. consumeColumnSource p = Inr ((column c, aggregationFunction c), p1) \<and>
     consumeAlias p1 = Inr (als, p') \<and>
     col_identifier c = synthesizeIdentifier als (aggregationFunction c) (column c)"
  using assms unfolding consumeColumn_js_def
  by (auto dest!: andThen_Inr)

lemma consumePlotArgs_js_other:
  "plotFn \<noteq> ''BAR'' \<Longrightarrow> plotFn \<noteq> ''LINE'' \<Longrightarrow> plotFn \<noteq> ''SCATTER'' \<Longrightarrow>
     consumePlotArgs_js plotFn p = Inl (InvalidPlotType plotFn)"
  by (simp add: consumePlotArgs_js_def)

lemma consumePlotArgs_ts_other:
  "plotFn \<noteq> ''BAR'' \<Longrightarrow> plotFn \<noteq> ''LINE'' \<Longrightarrow> plotFn \<noteq> ''SCATTER'' \<Longrightarrow>
     consumePlotArgs_ts plotFn p = Inl (InvalidPlotType plotFn)"
  by (simp add: consumePlotArgs_ts_def)

lemma consumePlotArgs_js_Inr:
  assumes "consumePlotArgs_js plotFn p = Inr (plot, p')"
  shows "p' = advance (advance (advance p)) \<and>
    ttype (currentToken p) = IDENTIFIER \<and> ttype (currentToken (advance p)) = COMMA \<and>
    ttype (currentToken (advance (advance p))) = IDENTIFIER \<and>
    (if plotFn = ''BAR''
     then plot = BarPlotCall plotFn (tvalue (currentToken p))
                   (tvalue (currentToken (advance (advance p))))
     else (plotFn = ''LINE'' \<or> plotFn = ''SCATTER'') \<and>
          plot = PointPlotCall plotFn (tvalue (currentToken p))
                   (tvalue (currentToken (advance (advance p)))))"
  using assms unfolding consumePlotArgs_js_def
  by (auto split: if_splits dest!: andThen_Inr consumeToken_Inr)

lemma consumePlotArgs_ts_Inr:
  assumes "consumePlotArgs_ts plotFn p = Inr (plot, p')"
  shows "\<exists>c1 p1 t p2 c2. consumeColumn_ts p = Inr (c1, p1) \<and>
    consumeToken COMMA None p1 = Inr (t, p2) \<and> consumeColumn_ts p2 = Inr (c2, p') \<and>
    (if plotFn = ''BAR'' then plot = BarPlotCall_ts plotFn c1 c2
     else (plotFn = ''LINE'' \<or> plotFn = ''SCATTER'') \<and> plot = PointPlotCall_ts plotFn c1 c2)"
  using assms unfolding consumePlotArgs_ts_def
  by (auto split: if_splits dest!: andThen_Inr)

section \<open>The compiled parser in terms of the TypeScript source\<close>

lemma consumeColumn_js_ts: "consumeColumn_js p = compiled (consumeColumn_ts p) toCompiled"
  by (simp add: consumeColumn_js_def consumeColumn_ts_def compiled_def andThen_def toCompiled_def
      split: sum.splits prod.splits)

lemma selectLoop_js_ts:
  "selectLoop_js (map toCompiled cols) p = compiled (selectLoop_ts cols p) (map toCompiled)"
proof (induction cols p rule: selectLoop_ts.induct)
  case (1 cols p)
  show ?case
  proof (cases "consumeColumn_ts p")
    case (Inl e)
    then show ?thesis
      by (subst selectLoop_js.simps, subst selectLoop_ts.simps)
         (simp add: consumeColumn_js_ts compiled_def)
  next
    case (Inr x)
    obtain c p1 where x: "x = (c, p1)" by (cases x)
    show ?thesis
    proof (cases "consumeToken COMMA None p1")
      case (Inl e)
      with Inr x show ?thesis
        by (subst selectLoop_js.simps, subst selectLoop_ts.simps)
           (simp add: consumeColumn_js_ts compiled_def)
    next
      case t: (Inr y)
      obtain t' p2 where y: "y = (t', p2)" by (cases y)
      show ?thesis
      proof (cases "ttype (currentToken p2) = IDENTIFIER")
        case True
        with Inr x t y show ?thesis
          by (subst selectLoop_js.simps, subst selectLoop_ts.simps)
             (simp add: consumeColumn_js_ts compiled_def)
      next
        case False
        from "1.IH" [OF Inr x [symmetric] t y [symmetric] False]
        have "selectLoop_js (map toCompiled (cols @ [c])) p2 =
            compiled (selectLoop_ts (cols @ [c]) p2) (map toCompiled)" .
        with False Inr x t y show ?thesis
          by (subst selectLoop_js.simps, subst selectLoop_ts.simps)
             (simp add: consumeColumn_js_ts compiled_def)
      qed
    qed
  qed
qed

lemma consumeSelectClause_js_ts:
  "consumeSelectClause_js p =
     andThen (consumeToken KEYWORD (Some ''SELECT'') p)
       (\<lambda>(k, p1). compiled (consumeSelectClause_ts p1) (map toCompiled))"
  using selectLoop_js_ts [of "[]"]
  by (simp add: consumeSelectClause_js_def consumeSelectClause_ts_def)

lemma consumeColumn_ts_bare:
  assumes "consumeColumn_ts p = Inr (c, p')" "bare c"
  shows "consumeToken IDENTIFIER None p = Inr (currentToken p, p') \<and>
    column_ts c = Some (tvalue (currentToken p))"
proof -
  from consumeColumn_ts_parts [OF assms(1)] obtain p1 where
    s: "consumeColumnSource p = Inr ((column_ts c, aggregationFunction_ts c), p1)" and
    al: "consumeAlias p1 = Inr (displayName c, p')"
    by blast
  from assms(2) have n: "aggregationFunction_ts c = None" "displayName c = None" by simp_all
  from s n have 1: "consumeToken IDENTIFIER None p = Inr (currentToken p, p1) \<and>
      column_ts c = Some (tvalue (currentToken p))"
    unfolding consumeColumnSource_def
    by (auto split: if_splits dest!: andThen_Inr dest: consumeToken_Inr)
  from al n have "p' = p1"
    unfolding consumeAlias_def
    by (auto split: if_splits dest!: andThen_Inr)
  with 1 show ?thesis by simp
qed

lemma consumePlotArgs_bare:
  assumes "consumePlotArgs_ts plotFn p = Inr (plot, p')" "bare_plot plot"
  shows "consumePlotArgs_js plotFn p = Inr (toCompiledPlot plot, p')"
proof -
  from consumePlotArgs_ts_Inr [OF assms(1)] obtain c1 p1 t p2 c2 where
    1: "consumeColumn_ts p = Inr (c1, p1)" and 2: "consumeToken COMMA None p1 = Inr (t, p2)" and
    3: "consumeColumn_ts p2 = Inr (c2, p')" and
    4: "if plotFn = ''BAR'' then plot = BarPlotCall_ts plotFn c1 c2
     else (plotFn = ''LINE'' \<or> plotFn = ''SCATTER'') \<and> plot = PointPlotCall_ts plotFn c1 c2"
    by blast
  from 4 assms(2) have b: "bare c1" "bare c2" by (auto split: if_splits)
  note a1 = consumeColumn_ts_bare [OF 1 b(1)]
  note a2 = consumeColumn_ts_bare [OF 3 b(2)]
  from a1 a2 2 4 show ?thesis
    by (auto simp: consumePlotArgs_js_def andThen_def split: if_splits)
qed

section \<open>The where clause: depth, results, invariant\<close>

text \<open>
  The equations of the three functions are unfolded by hand, one step at a time.
\<close>

lemmas group_Suc = consumeConditionGroup.simps(2)

lemmas inner_Suc = consumeCondition_inner.simps(2)

lemmas outer_Suc = consumeCondition_outer.simps(2)

declare consumeConditionGroup.simps(2) [simp del] consumeCondition_inner.simps(2) [simp del]
  consumeCondition_outer.simps(2) [simp del]

text \<open>
  A larger bound never changes a result: the bound is a device of the model, and a
  result found at one depth is the result at every greater depth.
\<close>

lemma fuel_Suc:
  "(\<forall>p r. consumeConditionGroup n p = Some r \<longrightarrow> consumeConditionGroup (Suc n) p = Some r) \<and>
   (\<forall>acc p r. consumeCondition_inner n acc p = Some r \<longrightarrow>
      consumeCondition_inner (Suc n) acc p = Some r) \<and>
   (\<forall>fs p r. consumeCondition_outer n fs p = Some r \<longrightarrow>
      consumeCondition_outer (Suc n) fs p = Some r)"
proof (induction n)
  case 0
  show ?case by simp
next
  case (Suc n)
  have g: "consumeConditionGroup n p = Some r \<Longrightarrow> consumeConditionGroup (Suc n) p = Some r"
    for p r using Suc.IH by blast
  have i: "consumeCondition_inner n acc p = Some r \<Longrightarrow>
      consumeCondition_inner (Suc n) acc p = Some r" for acc p r using Suc.IH by blast
  have o: "consumeCondition_outer n fs p = Some r \<Longrightarrow>
      consumeCondition_outer (Suc n) fs p = Some r" for fs p r using Suc.IH by blast
  have G: "consumeConditionGroup (Suc (Suc n)) p = Some r"
    if a: "consumeConditionGroup (Suc n) p = Some r" for p r
  proof (cases "ttype (currentToken p) = IDENTIFIER")
    case True
    then have "consumeConditionGroup (Suc (Suc n)) p = consumeConditionGroup (Suc n) p"
      by (simp add: group_Suc)
    with a show ?thesis by simp
  next
    case False
    show ?thesis
    proof (cases "consumeToken LPAREN None p")
      case (Inl e)
      with False have "consumeConditionGroup (Suc (Suc n)) p = consumeConditionGroup (Suc n) p"
        by (simp add: group_Suc)
      with a show ?thesis by simp
    next
      case (Inr x)
      obtain l p1 where x: "x = (l, p1)" by (cases x)
      show ?thesis
      proof (cases "consumeCondition_outer n [] p1")
        case None
        with False Inr x have "consumeConditionGroup (Suc n) p = None"
          by (simp add: group_Suc)
        with a show ?thesis by simp
      next
        case (Some y)
        with False Inr x o [OF Some]
        have "consumeConditionGroup (Suc (Suc n)) p = consumeConditionGroup (Suc n) p"
          by (simp add: group_Suc [of n] group_Suc [of "Suc n"])
        with a show ?thesis by simp
      qed
    qed
  qed
  have I: "consumeCondition_inner (Suc (Suc n)) acc p = Some r"
    if a: "consumeCondition_inner (Suc n) acc p = Some r" for acc p r
  proof (cases "tvalue (currentToken p) = ''AND''")
    case False
    then have "consumeCondition_inner (Suc (Suc n)) acc p = consumeCondition_inner (Suc n) acc p"
      by (simp add: inner_Suc)
    with a show ?thesis by simp
  next
    case True
    show ?thesis
    proof (cases "consumeToken LOGICAL_OPERATOR None p")
      case (Inl e)
      with True
      have "consumeCondition_inner (Suc (Suc n)) acc p = consumeCondition_inner (Suc n) acc p"
        by (simp add: inner_Suc)
      with a show ?thesis by simp
    next
      case (Inr x)
      obtain l p1 where x: "x = (l, p1)" by (cases x)
      show ?thesis
      proof (cases "consumeConditionGroup n p1")
        case None
        with True Inr x have "consumeCondition_inner (Suc n) acc p = None"
          by (simp add: inner_Suc)
        with a show ?thesis by simp
      next
        case (Some y)
        note gy = g [OF Some]
        show ?thesis
        proof (cases y)
          case (Inl e)
          with gy True Inr x Some
          have "consumeCondition_inner (Suc (Suc n)) acc p = consumeCondition_inner (Suc n) acc p"
            by (simp add: inner_Suc [of n] inner_Suc [of "Suc n"])
          with a show ?thesis by simp
        next
          case yr: (Inr z)
          obtain c p2 where z: "z = (c, p2)" by (cases z)
          from True Inr x Some yr z
          have l: "consumeCondition_inner (Suc n) acc p = consumeCondition_inner n (acc @ [c]) p2"
            by (simp add: inner_Suc [of n])
          from gy True Inr x yr z
          have r: "consumeCondition_inner (Suc (Suc n)) acc p =
              consumeCondition_inner (Suc n) (acc @ [c]) p2"
            by (simp add: inner_Suc [of "Suc n"])
          from a l have "consumeCondition_inner n (acc @ [c]) p2 = Some r" by simp
          from i [OF this] r show ?thesis by simp
        qed
      qed
    qed
  qed
  have O: "consumeCondition_outer (Suc (Suc n)) fs p = Some r"
    if a: "consumeCondition_outer (Suc n) fs p = Some r" for fs p r
  proof (cases "consumeConditionGroup n p")
    case None
    then have "consumeCondition_outer (Suc n) fs p = None" by (simp add: outer_Suc)
    with a show ?thesis by simp
  next
    case (Some y)
    note gy = g [OF Some]
    show ?thesis
    proof (cases y)
      case (Inl e)
      with gy Some
      have "consumeCondition_outer (Suc (Suc n)) fs p = consumeCondition_outer (Suc n) fs p"
        by (simp add: outer_Suc [of n] outer_Suc [of "Suc n"])
      with a show ?thesis by simp
    next
      case yr: (Inr z)
      obtain c p1 where z: "z = (c, p1)" by (cases z)
      show ?thesis
      proof (cases "consumeCondition_inner n [c] p1")
        case None
        with Some yr z have "consumeCondition_outer (Suc n) fs p = None"
          by (simp add: outer_Suc)
        with a show ?thesis by simp
      next
        case si: (Some w)
        note iw = i [OF si]
        show ?thesis
        proof (cases w)
          case (Inl e)
          with iw gy Some yr z si
          have "consumeCondition_outer (Suc (Suc n)) fs p = consumeCondition_outer (Suc n) fs p"
            by (simp add: outer_Suc [of n] outer_Suc [of "Suc n"])
          with a show ?thesis by simp
        next
          case wr: (Inr v)
          obtain ics p2 where v: "v = (ics, p2)" by (cases v)
          show ?thesis
          proof (cases "tvalue (currentToken p2) = ''OR''")
            case False
            with iw gy Some yr z si wr v
            have "consumeCondition_outer (Suc (Suc n)) fs p = consumeCondition_outer (Suc n) fs p"
              by (simp add: outer_Suc [of n] outer_Suc [of "Suc n"] Let_def)
            with a show ?thesis by simp
          next
            case True
            with Some yr z si wr v
            have l: "consumeCondition_outer (Suc n) fs p = consumeCondition_outer n
                (fs @ [if length ics = 1 then ics ! 0 else AndCondition ics]) (advance p2)"
              by (simp add: outer_Suc [of n] Let_def)
            from True iw gy yr z wr v
            have r: "consumeCondition_outer (Suc (Suc n)) fs p = consumeCondition_outer (Suc n)
                (fs @ [if length ics = 1 then ics ! 0 else AndCondition ics]) (advance p2)"
              by (simp add: outer_Suc [of "Suc n"] Let_def)
            from a l have "consumeCondition_outer n
                (fs @ [if length ics = 1 then ics ! 0 else AndCondition ics]) (advance p2) = Some r"
              by simp
            from o [OF this] r show ?thesis by simp
          qed
        qed
      qed
    qed
  qed
  from G I O show ?case by blast
qed

lemma fuel_add:
  "(consumeConditionGroup n p = Some r \<longrightarrow> consumeConditionGroup (n + k) p = Some r) \<and>
   (consumeCondition_inner n acc q = Some r' \<longrightarrow>
      consumeCondition_inner (n + k) acc q = Some r') \<and>
   (consumeCondition_outer n fs q' = Some r'' \<longrightarrow>
      consumeCondition_outer (n + k) fs q' = Some r'')"
  by (induction k) (auto simp: fuel_Suc)

lemma group_fuel_le:
  "consumeConditionGroup n p = Some r \<Longrightarrow> n \<le> m \<Longrightarrow> consumeConditionGroup m p = Some r"
  using fuel_add [of n p r "m - n"] by simp

lemma inner_fuel_le:
  "consumeCondition_inner n acc p = Some r \<Longrightarrow> n \<le> m \<Longrightarrow>
     consumeCondition_inner m acc p = Some r"
  using fuel_add [of n _ _ "m - n" acc p r] by simp

lemma outer_fuel_le:
  "consumeCondition_outer n fs p = Some r \<Longrightarrow> n \<le> m \<Longrightarrow>
     consumeCondition_outer m fs p = Some r"
  using fuel_add [of n _ _ "m - n" _ _ _ fs p r] by simp

lemma consumeCondition_fuel:
  "consumeCondition n p = Some r \<Longrightarrow> consumeCondition (n + k) p = Some r"
  by (induction k) (auto simp: consumeCondition_def fuel_Suc)

lemma consumeWhereClauseOptional_fuel:
  assumes "consumeWhereClauseOptional n p = Some r"
  shows "consumeWhereClauseOptional (n + k) p = Some r"
proof (cases "tvalue (currentToken p) = ''WHERE''")
  case False
  with assms show ?thesis by (simp add: consumeWhereClauseOptional_def)
next
  case True
  show ?thesis
  proof (cases "consumeToken KEYWORD None p")
    case (Inl e)
    with assms True show ?thesis by (simp add: consumeWhereClauseOptional_def)
  next
    case (Inr x)
    obtain l p1 where x: "x = (l, p1)" by (cases x)
    show ?thesis
    proof (cases "consumeCondition n p1")
      case None
      with assms True Inr x show ?thesis by (simp add: consumeWhereClauseOptional_def)
    next
      case (Some y)
      from consumeCondition_fuel [OF Some, of k] assms True Inr x Some show ?thesis
        by (simp add: consumeWhereClauseOptional_def)
    qed
  qed
qed

text \<open>
What a returned result says about the steps taken.
\<close>

lemma group_Suc_Inr:
  assumes "consumeConditionGroup (Suc n) p = Some (Inr (c, p'))"
  shows "(ttype (currentToken p) = IDENTIFIER \<and> consumeComparison p = Inr (c, p')) \<or>
    (ttype (currentToken p) \<noteq> IDENTIFIER \<and>
     (\<exists>l p1 p2 r. consumeToken LPAREN None p = Inr (l, p1) \<and>
        consumeCondition_outer n [] p1 = Some (Inr (c, p2)) \<and>
        consumeToken RPAREN None p2 = Inr (r, p')))"
  using assms
  by (auto simp: group_Suc split: if_splits sum.splits option.splits prod.splits)

lemma inner_Suc_Inr:
  assumes "consumeCondition_inner (Suc n) acc p = Some (Inr (cs, p'))"
  shows "(tvalue (currentToken p) \<noteq> ''AND'' \<and> cs = acc \<and> p' = p) \<or>
    (tvalue (currentToken p) = ''AND'' \<and>
     (\<exists>a p1 g p2. consumeToken LOGICAL_OPERATOR None p = Inr (a, p1) \<and>
        consumeConditionGroup n p1 = Some (Inr (g, p2)) \<and>
        consumeCondition_inner n (acc @ [g]) p2 = Some (Inr (cs, p'))))"
  using assms
  by (auto simp: inner_Suc split: if_splits sum.splits option.splits prod.splits)

lemma outer_Suc_Inr:
  assumes "consumeCondition_outer (Suc n) fs p = Some (Inr (c, p'))"
  shows "\<exists>g p1 ics p2. consumeConditionGroup n p = Some (Inr (g, p1)) \<and>
     consumeCondition_inner n [g] p1 = Some (Inr (ics, p2)) \<and>
     ((tvalue (currentToken p2) \<noteq> ''OR'' \<and> p' = p2 \<and>
       c = (if length (fs @ [if length ics = 1 then ics ! 0 else AndCondition ics]) = 1
            then (fs @ [if length ics = 1 then ics ! 0 else AndCondition ics]) ! 0
            else OrCondition (fs @ [if length ics = 1 then ics ! 0 else AndCondition ics]))) \<or>
      (tvalue (currentToken p2) = ''OR'' \<and>
       consumeCondition_outer n (fs @ [if length ics = 1 then ics ! 0 else AndCondition ics])
         (advance p2) = Some (Inr (c, p'))))"
proof (cases "consumeConditionGroup n p")
  case None
  with assms show ?thesis by (simp add: outer_Suc)
next
  case (Some y)
  show ?thesis
  proof (cases y)
    case (Inl e)
    with assms Some show ?thesis by (simp add: outer_Suc)
  next
    case yr: (Inr z)
    obtain g p1 where z: "z = (g, p1)" by (cases z)
    show ?thesis
    proof (cases "consumeCondition_inner n [g] p1")
      case None
      with assms Some yr z show ?thesis by (simp add: outer_Suc)
    next
      case si: (Some w)
      show ?thesis
      proof (cases w)
        case (Inl e)
        with assms Some yr z si show ?thesis by (simp add: outer_Suc)
      next
        case wr: (Inr v)
        obtain ics p2 where v: "v = (ics, p2)" by (cases v)
        from assms Some yr z si wr v show ?thesis
          by (cases "tvalue (currentToken p2) = ''OR''") (auto simp: outer_Suc Let_def)
      qed
    qed
  qed
qed

lemma consumeComparison_operator:
  assumes "ttype (currentToken p) = IDENTIFIER"
    and "ttype (currentToken (advance p)) = COMPARISON_OPERATOR"
  shows "consumeComparison p =
    (let key = tvalue (currentToken p); comparisonOperator = operatorText p;
         p2 = advance (advance p) in
       if comparisonOperator = ''>'' then
         andThen (consumeNumber p2) (\<lambda>(v, p3). Inr (GreaterThanCondition key v, p3))
       else if comparisonOperator = ''>='' then
         andThen (consumeNumber p2) (\<lambda>(v, p3). Inr (GreaterThanOrEqualCondition key v, p3))
       else if comparisonOperator = ''<'' then
         andThen (consumeNumber p2) (\<lambda>(v, p3). Inr (LessThanCondition key v, p3))
       else if comparisonOperator = ''<='' then
         andThen (consumeNumber p2) (\<lambda>(v, p3). Inr (LessThanOrEqualCondition key v, p3))
       else if comparisonOperator = ''='' then
         andThen (consumeComparisonValue p2) (\<lambda>(v, p3). Inr (EqualCondition key v, p3))
       else if comparisonOperator = ''!='' then
         andThen (consumeComparisonValue p2) (\<lambda>(v, p3). Inr (NotEqualCondition key v, p3))
       else Inl (InvalidComparisonOperator comparisonOperator))"
  using assms
  by (simp add: consumeComparison_def consumeToken_match andThen_def Let_def operatorText_def)

lemma consumeComparison_other:
  assumes "ttype (currentToken p) = IDENTIFIER"
    and "ttype (currentToken (advance p)) = COMPARISON_OPERATOR"
    and "operatorText p \<notin> {''>'', ''>='', ''<'', ''<='', ''='', ''!=''}"
  shows "consumeComparison p = Inl (InvalidComparisonOperator (operatorText p))"
  using assms(3) by (simp add: consumeComparison_operator [OF assms(1,2)] Let_def)

lemma consumeComparison_well_formed:
  "consumeComparison p = Inr (c, p') \<Longrightarrow> well_formed c"
  unfolding consumeComparison_def Let_def
  by (auto dest!: andThen_Inr split: if_splits)

lemma well_formed_results:
  "(\<forall>p c p'. consumeConditionGroup n p = Some (Inr (c, p')) \<longrightarrow> well_formed c) \<and>
   (\<forall>acc p cs p'. consumeCondition_inner n acc p = Some (Inr (cs, p')) \<longrightarrow>
      list_all well_formed acc \<longrightarrow> acc \<noteq> [] \<longrightarrow> list_all well_formed cs \<and> cs \<noteq> []) \<and>
   (\<forall>fs p c p'. consumeCondition_outer n fs p = Some (Inr (c, p')) \<longrightarrow>
      list_all well_formed fs \<longrightarrow> well_formed c)"
proof (induction n)
  case 0
  show ?case by simp
next
  case (Suc n)
  have g: "consumeConditionGroup n p = Some (Inr (c, p')) \<Longrightarrow> well_formed c" for p c p'
    using Suc.IH by blast
  have i: "consumeCondition_inner n acc p = Some (Inr (cs, p')) \<Longrightarrow>
      list_all well_formed acc \<Longrightarrow> acc \<noteq> [] \<Longrightarrow> list_all well_formed cs \<and> cs \<noteq> []"
    for acc p cs p' using Suc.IH by blast
  have o: "consumeCondition_outer n fs p = Some (Inr (c, p')) \<Longrightarrow>
      list_all well_formed fs \<Longrightarrow> well_formed c" for fs p c p'
    using Suc.IH by blast
  have G: "well_formed c" if "consumeConditionGroup (Suc n) p = Some (Inr (c, p'))" for p c p'
    using group_Suc_Inr [OF that] by (auto dest: consumeComparison_well_formed o)
  have I: "list_all well_formed cs \<and> cs \<noteq> []"
    if "consumeCondition_inner (Suc n) acc p = Some (Inr (cs, p'))"
      "list_all well_formed acc" "acc \<noteq> []" for acc p cs p'
    using inner_Suc_Inr [OF that(1)] that(2,3)
  proof (elim disjE conjE exE)
    assume "cs = acc"
    with that show ?thesis by simp
  next
    fix a p1 g' p2
    assume 1: "consumeConditionGroup n p1 = Some (Inr (g', p2))"
      and 2: "consumeCondition_inner n (acc @ [g']) p2 = Some (Inr (cs, p'))"
    from g [OF 1] that(2) have "list_all well_formed (acc @ [g'])" by simp
    from i [OF 2 this] show ?thesis by simp
  qed
  have O: "well_formed c"
    if "consumeCondition_outer (Suc n) fs p = Some (Inr (c, p'))" "list_all well_formed fs"
    for fs p c p'
  proof -
    from outer_Suc_Inr [OF that(1)] obtain g' p1 ics p2 where
      1: "consumeConditionGroup n p = Some (Inr (g', p1))" and
      2: "consumeCondition_inner n [g'] p1 = Some (Inr (ics, p2))" and
      3: "(tvalue (currentToken p2) \<noteq> ''OR'' \<and> p' = p2 \<and>
       c = (if length (fs @ [if length ics = 1 then ics ! 0 else AndCondition ics]) = 1
            then (fs @ [if length ics = 1 then ics ! 0 else AndCondition ics]) ! 0
            else OrCondition (fs @ [if length ics = 1 then ics ! 0 else AndCondition ics]))) \<or>
      (tvalue (currentToken p2) = ''OR'' \<and>
       consumeCondition_outer n (fs @ [if length ics = 1 then ics ! 0 else AndCondition ics])
         (advance p2) = Some (Inr (c, p')))"
      by blast
    from g [OF 1] i [OF 2] have ics: "list_all well_formed ics" "ics \<noteq> []" by simp_all
    define ic where "ic = (if length ics = 1 then ics ! 0 else AndCondition ics)"
    have ic: "well_formed ic"
    proof (cases "length ics = 1")
      case True
      with ics show ?thesis by (cases ics) (simp_all add: ic_def)
    next
      case False
      moreover from ics have "length ics \<noteq> 0" by simp
      ultimately have "2 \<le> length ics" by linarith
      with ics False show ?thesis by (simp add: ic_def)
    qed
    with that(2) have fs': "list_all well_formed (fs @ [ic])" by simp
    from 3 show ?thesis
    proof (elim disjE conjE)
      assume c: "c = (if length (fs @ [if length ics = 1 then ics ! 0 else AndCondition ics]) = 1
            then (fs @ [if length ics = 1 then ics ! 0 else AndCondition ics]) ! 0
            else OrCondition (fs @ [if length ics = 1 then ics ! 0 else AndCondition ics]))"
      show ?thesis
      proof (cases "fs = []")
        case True
        with c ic show ?thesis by (simp add: ic_def)
      next
        case False
        then have "2 \<le> length (fs @ [ic])" by (cases fs) auto
        with c fs' False show ?thesis by (simp add: ic_def)
      qed
    next
      assume "consumeCondition_outer n
          (fs @ [if length ics = 1 then ics ! 0 else AndCondition ics]) (advance p2) =
          Some (Inr (c, p'))"
      from o [OF this] fs' show ?thesis by (simp add: ic_def)
    qed
  qed
  from G I O show ?case by blast
qed

lemma consumeWhereClauseOptional_well_formed:
  assumes "consumeWhereClauseOptional n p = Some (Inr (Some c, p'))"
  shows "well_formed c"
proof -
  from assms obtain p1 where "consumeCondition n p1 = Some (Inr (c, p'))"
    by (auto simp: consumeWhereClauseOptional_def
        split: if_splits sum.splits option.splits prod.splits)
  then have "consumeCondition_outer n [] p1 = Some (Inr (c, p'))"
    by (simp add: consumeCondition_def)
  moreover have "list_all well_formed []" by simp
  ultimately show ?thesis
    using well_formed_results [of n] by blast
qed

text \<open>
  A result leaves fewer tokens to consume; hence a depth of twice the tokens left, and
  two, is never exhausted: the where clause returns or throws on every input.
\<close>

lemma consumeComparison_remaining:
  assumes "consumeComparison p = Inr (c, p')"
  shows "remaining p' < remaining p"
proof -
  from assms obtain k p1 where "consumeToken IDENTIFIER None p = Inr (k, p1)"
    unfolding consumeComparison_def by (auto dest!: andThen_Inr)
  then have 1: "p1 = advance p" "remaining p1 < remaining p"
    using consumeToken_Inr [of IDENTIFIER None p k p1]
      consumeToken_remaining [of IDENTIFIER None p k p1] by simp_all
  from assms have 2: "remaining p' \<le> remaining (advance (advance p))"
    unfolding consumeComparison_def Let_def consumeNumber_def consumeComparisonValue_def
    by (auto dest!: andThen_Inr consumeToken_Inr split: if_splits TokenType.splits
        simp: remaining_advance)
  have "remaining (advance (advance p)) \<le> remaining (advance p)" by (rule remaining_advance)
  with 1 2 show ?thesis by simp
qed

lemma remaining_results:
  "(\<forall>p c p'. consumeConditionGroup n p = Some (Inr (c, p')) \<longrightarrow> remaining p' < remaining p) \<and>
   (\<forall>acc p cs p'. consumeCondition_inner n acc p = Some (Inr (cs, p')) \<longrightarrow>
      remaining p' \<le> remaining p) \<and>
   (\<forall>fs p c p'. consumeCondition_outer n fs p = Some (Inr (c, p')) \<longrightarrow>
      remaining p' < remaining p)"
proof (induction n)
  case 0
  show ?case by simp
next
  case (Suc n)
  have g: "consumeConditionGroup n p = Some (Inr (c, p')) \<Longrightarrow> remaining p' < remaining p"
    for p c p' using Suc.IH by blast
  have i: "consumeCondition_inner n acc p = Some (Inr (cs, p')) \<Longrightarrow>
      remaining p' \<le> remaining p" for acc p cs p' using Suc.IH by blast
  have o: "consumeCondition_outer n fs p = Some (Inr (c, p')) \<Longrightarrow>
      remaining p' < remaining p" for fs p c p' using Suc.IH by blast
  have G: "remaining p' < remaining p"
    if "consumeConditionGroup (Suc n) p = Some (Inr (c, p'))" for p c p'
    using group_Suc_Inr [OF that]
  proof (elim disjE conjE exE)
    assume "consumeComparison p = Inr (c, p')"
    then show ?thesis by (rule consumeComparison_remaining)
  next
    fix l p1 p2 r
    assume "consumeToken LPAREN None p = Inr (l, p1)"
      "consumeCondition_outer n [] p1 = Some (Inr (c, p2))"
      "consumeToken RPAREN None p2 = Inr (r, p')"
    then have "remaining p1 < remaining p" "remaining p2 < remaining p1"
      "remaining p' < remaining p2"
      using consumeToken_remaining [of LPAREN None p l p1] o [of "[]" p1 c p2]
        consumeToken_remaining [of RPAREN None p2 r p'] by simp_all
    then show ?thesis by simp
  qed
  have I: "remaining p' \<le> remaining p"
    if "consumeCondition_inner (Suc n) acc p = Some (Inr (cs, p'))" for acc p cs p'
    using inner_Suc_Inr [OF that]
  proof (elim disjE conjE exE)
    assume "p' = p"
    then show ?thesis by simp
  next
    fix a p1 g' p2
    assume "consumeToken LOGICAL_OPERATOR None p = Inr (a, p1)"
      "consumeConditionGroup n p1 = Some (Inr (g', p2))"
      "consumeCondition_inner n (acc @ [g']) p2 = Some (Inr (cs, p'))"
    then have "remaining p1 < remaining p" "remaining p2 < remaining p1"
      "remaining p' \<le> remaining p2"
      using consumeToken_remaining [of LOGICAL_OPERATOR None p a p1] g [of p1 g' p2]
        i [of "acc @ [g']" p2 cs p'] by simp_all
    then show ?thesis by simp
  qed
  have O: "remaining p' < remaining p"
    if "consumeCondition_outer (Suc n) fs p = Some (Inr (c, p'))" for fs p c p'
  proof -
    from outer_Suc_Inr [OF that] obtain g' p1 ics p2 where
      1: "consumeConditionGroup n p = Some (Inr (g', p1))" and
      2: "consumeCondition_inner n [g'] p1 = Some (Inr (ics, p2))" and
      3: "p' = p2 \<or>
        consumeCondition_outer n (fs @ [if length ics = 1 then ics ! 0 else AndCondition ics])
          (advance p2) = Some (Inr (c, p'))"
      by blast
    from g [OF 1] i [OF 2] have 4: "remaining p2 < remaining p" by simp
    from 3 show ?thesis
    proof
      assume "p' = p2"
      with 4 show ?thesis by simp
    next
      assume "consumeCondition_outer n
          (fs @ [if length ics = 1 then ics ! 0 else AndCondition ics]) (advance p2) =
          Some (Inr (c, p'))"
      from o [OF this] remaining_advance [of p2] 4 show ?thesis by simp
    qed
  qed
  from G I O show ?case by blast
qed

lemma remaining_0: "remaining p = 0 \<Longrightarrow> ttype (currentToken p) = EOF"
  by (auto simp: remaining_def split: if_splits)

lemma enough_depth:
  "(\<forall>p. remaining p \<le> m \<longrightarrow> (\<exists>r. consumeConditionGroup (2 * m + 1) p = Some r)) \<and>
   (\<forall>acc p. remaining p \<le> m \<longrightarrow> (\<exists>r. consumeCondition_inner (2 * m + 1) acc p = Some r)) \<and>
   (\<forall>fs p. remaining p \<le> m \<longrightarrow> (\<exists>r. consumeCondition_outer (2 * m + 2) fs p = Some r))"
proof (induction m)
  case 0
  have G: "\<exists>r. consumeConditionGroup (Suc 0) p = Some r" if "remaining p \<le> 0" for p
  proof -
    from that have "ttype (currentToken p) = EOF" by (simp add: remaining_0)
    then show ?thesis by (simp add: group_Suc consumeToken_mismatch)
  qed
  have I: "\<exists>r. consumeCondition_inner (Suc 0) acc p = Some r" if "remaining p \<le> 0" for acc p
  proof -
    from that have "ttype (currentToken p) = EOF" by (simp add: remaining_0)
    then show ?thesis by (simp add: inner_Suc consumeToken_mismatch)
  qed
  have O: "\<exists>r. consumeCondition_outer (Suc (Suc 0)) fs p = Some r" if "remaining p \<le> 0" for fs p
  proof -
    from that have "ttype (currentToken p) = EOF" by (simp add: remaining_0)
    then have "consumeConditionGroup (Suc 0) p =
        Some (Inl (UnexpectedToken (currentToken p) (currentPosition (lexer p))))"
      by (simp add: group_Suc consumeToken_mismatch)
    then show ?thesis by (simp add: outer_Suc [of "Suc 0"])
  qed
  from G I O show ?case by simp
next
  case (Suc m)
  define d where "d = 2 * m + 2"
  have g: "\<exists>r. consumeConditionGroup d p = Some r" if "remaining p \<le> m" for p
  proof -
    from Suc.IH that obtain r where "consumeConditionGroup (2 * m + 1) p = Some r" by blast
    then have "consumeConditionGroup d p = Some r" by (rule group_fuel_le) (simp add: d_def)
    then show ?thesis by blast
  qed
  have i: "\<exists>r. consumeCondition_inner d acc p = Some r" if "remaining p \<le> m" for acc p
  proof -
    from Suc.IH that obtain r where "consumeCondition_inner (2 * m + 1) acc p = Some r" by blast
    then have "consumeCondition_inner d acc p = Some r" by (rule inner_fuel_le) (simp add: d_def)
    then show ?thesis by blast
  qed
  have o: "\<exists>r. consumeCondition_outer d fs p = Some r" if "remaining p \<le> m" for fs p
    using Suc.IH that unfolding d_def by blast
  have G: "\<exists>r. consumeConditionGroup (Suc d) p = Some r" if le: "remaining p \<le> Suc m" for p
  proof (cases "ttype (currentToken p) = IDENTIFIER")
    case True
    then show ?thesis by (simp add: group_Suc)
  next
    case False
    show ?thesis
    proof (cases "consumeToken LPAREN None p")
      case (Inl e)
      with False show ?thesis by (simp add: group_Suc)
    next
      case (Inr x)
      obtain l p1 where x: "x = (l, p1)" by (cases x)
      from Inr x le have "remaining p1 \<le> m"
        using consumeToken_remaining [of LPAREN None p l p1] by simp
      from o [OF this, of "[]"] obtain r where "consumeCondition_outer d [] p1 = Some r"
        by blast
      with False Inr x show ?thesis
        by (simp add: group_Suc split: sum.splits prod.splits)
    qed
  qed
  have I: "\<exists>r. consumeCondition_inner (Suc d) acc p = Some r"
    if le: "remaining p \<le> Suc m" for acc p
  proof (cases "tvalue (currentToken p) = ''AND''")
    case False
    then show ?thesis by (simp add: inner_Suc)
  next
    case True
    show ?thesis
    proof (cases "consumeToken LOGICAL_OPERATOR None p")
      case (Inl e)
      with True show ?thesis by (simp add: inner_Suc)
    next
      case (Inr x)
      obtain a p1 where x: "x = (a, p1)" by (cases x)
      from Inr x le have p1: "remaining p1 \<le> m"
        using consumeToken_remaining [of LOGICAL_OPERATOR None p a p1] by simp
      from g [OF p1] obtain y where gy: "consumeConditionGroup d p1 = Some y" by blast
      show ?thesis
      proof (cases y)
        case (Inl e)
        with True Inr x gy show ?thesis by (simp add: inner_Suc)
      next
        case yr: (Inr z)
        obtain c p2 where z: "z = (c, p2)" by (cases z)
        from gy yr z have "remaining p2 < remaining p1"
          using remaining_results [of d] by blast
        with p1 have "remaining p2 \<le> m" by simp
        from i [OF this, of "acc @ [c]"] obtain w where
          "consumeCondition_inner d (acc @ [c]) p2 = Some w" by blast
        with True Inr x gy yr z show ?thesis by (simp add: inner_Suc)
      qed
    qed
  qed
  have O: "\<exists>r. consumeCondition_outer (Suc (Suc d)) fs p = Some r"
    if le: "remaining p \<le> Suc m" for fs p
  proof -
    from G [OF le] obtain y where gy: "consumeConditionGroup (Suc d) p = Some y"
      by blast
    show ?thesis
    proof (cases y)
      case (Inl e)
      with gy show ?thesis by (simp add: outer_Suc [of "Suc d"])
    next
      case yr: (Inr z)
      obtain c p1 where z: "z = (c, p1)" by (cases z)
      from gy yr z have "remaining p1 < remaining p"
        using remaining_results [of "Suc d"] by blast
      with le have p1: "remaining p1 \<le> m" by simp
      from i [OF p1, of "[c]"] obtain w where "consumeCondition_inner d [c] p1 = Some w" by blast
      then have iw: "consumeCondition_inner (Suc d) [c] p1 = Some w"
        by (rule inner_fuel_le) simp
      show ?thesis
      proof (cases w)
        case (Inl e)
        with gy yr z iw show ?thesis by (simp add: outer_Suc [of "Suc d"])
      next
        case wr: (Inr v)
        obtain ics p2 where v: "v = (ics, p2)" by (cases v)
        from iw wr v have "remaining p2 \<le> remaining p1"
          using remaining_results [of "Suc d"] by blast
        with p1 remaining_advance [of p2] have "remaining (advance p2) \<le> m" by simp
        from o [OF this, of "fs @ [if length ics = 1 then ics ! 0 else AndCondition ics]"]
        obtain u where "consumeCondition_outer d
            (fs @ [if length ics = 1 then ics ! 0 else AndCondition ics]) (advance p2) = Some u"
          by blast
        then have "consumeCondition_outer (Suc d)
            (fs @ [if length ics = 1 then ics ! 0 else AndCondition ics]) (advance p2) = Some u"
          by (rule outer_fuel_le) simp
        with gy yr z iw wr v show ?thesis
          by (simp add: outer_Suc [of "Suc d"] Let_def)
      qed
    qed
  qed
  have "2 * Suc m + 1 = Suc d" "2 * Suc m + 2 = Suc (Suc d)" by (simp_all add: d_def)
  with G I O show ?case by simp
qed

lemma consumeWhereClauseOptional_returns:
  "\<exists>r. consumeWhereClauseOptional (2 * remaining p + 2) p = Some r"
proof (cases "tvalue (currentToken p) = ''WHERE''")
  case False
  then show ?thesis by (simp add: consumeWhereClauseOptional_def)
next
  case True
  show ?thesis
  proof (cases "consumeToken KEYWORD None p")
    case (Inl e)
    with True show ?thesis by (simp add: consumeWhereClauseOptional_def)
  next
    case (Inr x)
    obtain k p1 where x: "x = (k, p1)" by (cases x)
    from Inr x have "remaining p1 \<le> remaining p"
      using consumeToken_remaining [of KEYWORD None p k p1] by simp
    with enough_depth [of "remaining p"] obtain r where
      "consumeCondition_outer (2 * remaining p + 2) [] p1 = Some r"
      by blast
    with True Inr x show ?thesis
      by (simp add: consumeWhereClauseOptional_def consumeCondition_def split: sum.splits prod.splits)
  qed
qed

section \<open>The where clause on the tokens of a condition\<close>

lemma separated_Cons:
  "separated s (x # xs) = x @ concat (map (\<lambda>y. s # y) xs)"
  by (induction xs arbitrary: x) auto

lemma consumeComparison_sees:
  assumes "sees p (k # c # v # rest)" and "spec_comparison (k, c, v) = Some w"
  shows "consumeComparison p = Inr (w, advance (advance (advance p))) \<and>
    sees (advance (advance (advance p))) rest \<and> ttype k = IDENTIFIER"
proof -
  from assms(1) have cur: "currentToken p = k" "currentToken (advance p) = c"
    "currentToken (advance (advance p)) = v" and rest: "sees (advance (advance (advance p))) rest"
    by simp_all
  from assms(2) have ty: "ttype k = IDENTIFIER" "ttype c = COMPARISON_OPERATOR"
    by (auto split: if_splits)
  have op: "operatorText p = tvalue c" by (simp add: operatorText_def cur)
  from ty cur have eq: "consumeComparison p =
    (let key = tvalue (currentToken p); comparisonOperator = operatorText p;
         p2 = advance (advance p) in
       if comparisonOperator = ''>'' then
         andThen (consumeNumber p2) (\<lambda>(v, p3). Inr (GreaterThanCondition key v, p3))
       else if comparisonOperator = ''>='' then
         andThen (consumeNumber p2) (\<lambda>(v, p3). Inr (GreaterThanOrEqualCondition key v, p3))
       else if comparisonOperator = ''<'' then
         andThen (consumeNumber p2) (\<lambda>(v, p3). Inr (LessThanCondition key v, p3))
       else if comparisonOperator = ''<='' then
         andThen (consumeNumber p2) (\<lambda>(v, p3). Inr (LessThanOrEqualCondition key v, p3))
       else if comparisonOperator = ''='' then
         andThen (consumeComparisonValue p2) (\<lambda>(v, p3). Inr (EqualCondition key v, p3))
       else if comparisonOperator = ''!='' then
         andThen (consumeComparisonValue p2) (\<lambda>(v, p3). Inr (NotEqualCondition key v, p3))
       else Inl (InvalidComparisonOperator comparisonOperator))"
    by (intro consumeComparison_operator) simp_all
  have "consumeComparison p = Inr (w, advance (advance (advance p)))"
    using assms(2) ty
    unfolding eq Let_def op cur
    by (cases "ttype v")
       (auto simp: consumeNumber_cases consumeComparisonValue_def andThen_def cur Let_def
          split: if_splits)
  with rest ty show ?thesis by simp
qed

lemma unit_tokens_Grouped:
  "unit_tokens (Grouped gs) = Token LPAREN ''('' # condition_tokens gs @ [Token RPAREN '')'']"
  by (simp add: condition_tokens_def and_group_tokens_def [abs_def])

lemma spec_unit_Grouped: "spec_unit (Grouped gs) = spec_where gs"
  by (simp add: spec_where_def spec_group_def [abs_def])

lemma unit_depth_Grouped: "unit_depth (Grouped gs) = Suc (condition_depth gs)"
  by (simp add: condition_depth_def)

lemma those_Cons_Some:
  "those (x # xs) = Some ys \<longleftrightarrow> (\<exists>y ys'. x = Some y \<and> those xs = Some ys' \<and> ys = y # ys')"
  by (cases x) (auto simp: map_option_case split: option.splits)

lemma collapsed_Some:
  assumes "collapsed wrap (x # xs) = Some w"
  obtains c cs where "x = Some c" "those xs = Some cs"
    "w = (if length (c # cs) = 1 then (c # cs) ! 0 else wrap (c # cs))"
proof -
  from assms obtain ys where ys: "those (x # xs) = Some ys"
    by (auto simp: collapsed_def split: option.splits)
  then obtain c cs where c: "x = Some c" and cs: "those xs = Some cs" and y: "ys = c # cs"
    by (auto simp: those_Cons_Some simp del: those.simps)
  from assms ys y have "w = (if length (c # cs) = 1 then (c # cs) ! 0 else wrap (c # cs))"
    by (cases cs) (auto simp: collapsed_def)
  with c cs that show ?thesis by blast
qed

lemma collapsed_Nil: "collapsed wrap [] = None"
  by (simp add: collapsed_def)

lemma reads_unitD:
  assumes "reads_unit u" "spec_unit u = Some w" "sees p (unit_tokens u @ rest)" "unit_depth u \<le> n"
  obtains p' where "consumeConditionGroup n p = Some (Inr (w, p'))" "sees p' rest"
  using assms unfolding reads_unit_def by blast

text \<open>
The inner loop on \<^verbatim>\<open>AND u1 AND u2 ...\<close>, followed by a token other than \<^verbatim>\<open>AND\<close>.
\<close>

lemma inner_loop_units:
  assumes "\<forall>u\<in>set us. reads_unit u"
    and "those (map spec_unit us) = Some cs"
    and "sees p (concat (map (\<lambda>u. Token LOGICAL_OPERATOR ''AND'' # unit_tokens u) us) @ t # rest)"
    and "tvalue t \<noteq> ''AND''"
    and "inner_depth (map unit_depth us) \<le> n"
  shows "\<exists>p'. consumeCondition_inner n acc p = Some (Inr (acc @ cs, p')) \<and> sees p' (t # rest)"
  using assms
proof (induction us arbitrary: cs p n acc)
  case Nil
  from Nil.prems(5) obtain m where n: "n = Suc m" by (cases n) auto
  from Nil.prems(3) have "currentToken p = t" by simp
  with Nil.prems show ?case by (simp add: n inner_Suc)
next
  case (Cons u us)
  from Cons.prems(2) obtain w ws where w: "spec_unit u = Some w"
    and ws: "those (map spec_unit us) = Some ws" and cs: "cs = w # ws"
    by (auto simp: those_Cons_Some simp del: those.simps)
  from Cons.prems(5) obtain m where n: "n = Suc m" and mu: "unit_depth u \<le> m"
    and mi: "inner_depth (map unit_depth us) \<le> m"
    by (cases n) auto
  let ?and = "Token LOGICAL_OPERATOR ''AND''"
  let ?tail = "concat (map (\<lambda>u. ?and # unit_tokens u) us) @ t # rest"
  from Cons.prems(3) have s: "sees p (?and # unit_tokens u @ ?tail)" by simp
  then have cur: "currentToken p = ?and" and s1: "sees (advance p) (unit_tokens u @ ?tail)"
    by simp_all
  from consumeToken_sees [OF s]
  have tok: "consumeToken LOGICAL_OPERATOR None p = Inr (?and, advance p)"
    by simp
  from Cons.prems(1) have "reads_unit u" by simp
  from reads_unitD [OF this w s1 mu] obtain p2 where
    grp: "consumeConditionGroup m (advance p) = Some (Inr (w, p2))" and s2: "sees p2 ?tail"
    by blast
  from Cons.prems(1) have "\<forall>v\<in>set us. reads_unit v" by simp
  from Cons.IH [OF this ws s2 Cons.prems(4) mi, of "acc @ [w]"] obtain p' where
    "consumeCondition_inner m (acc @ [w]) p2 = Some (Inr ((acc @ [w]) @ ws, p'))"
    and "sees p' (t # rest)"
    by blast
  with cur tok grp show ?case by (auto simp: n inner_Suc cs)
qed

text \<open>
  One round of the outer loop reads one group \<^verbatim>\<open>u0 AND u1 AND ...\<close> and stops
  before a token other than \<^verbatim>\<open>AND\<close>.
\<close>

lemma group_round_units:
  assumes "\<forall>u\<in>set g. reads_unit u"
    and "spec_group g = Some w"
    and "sees p (and_group_tokens g @ t # rest)"
    and "tvalue t \<noteq> ''AND''"
    and "group_depth (map unit_depth g) \<le> n"
  shows "\<exists>c p1 ics p2. consumeConditionGroup n p = Some (Inr (c, p1)) \<and>
     consumeCondition_inner n [c] p1 = Some (Inr (ics, p2)) \<and>
     w = (if length ics = 1 then ics ! 0 else AndCondition ics) \<and> sees p2 (t # rest)"
proof -
  from assms(2) obtain u us where g: "g = u # us"
    by (cases g) (auto simp: spec_group_def collapsed_Nil)
  from assms(2) [unfolded spec_group_def g list.map] obtain c cs where
    c: "spec_unit u = Some c" and cs: "those (map spec_unit us) = Some cs"
    and w: "w = (if length (c # cs) = 1 then (c # cs) ! 0 else AndCondition (c # cs))"
    by (rule collapsed_Some)
  let ?tail = "concat (map (\<lambda>u. Token LOGICAL_OPERATOR ''AND'' # unit_tokens u) us) @ t # rest"
  from assms(3) have s: "sees p (unit_tokens u @ ?tail)"
    by (simp add: g and_group_tokens_def separated_Cons comp_def)
  from assms(5) have du: "unit_depth u \<le> n" and di: "inner_depth (map unit_depth us) \<le> n"
    by (simp_all add: g)
  from assms(1) have "reads_unit u" by (simp add: g)
  from reads_unitD [OF this c s du] obtain p1 where
    grp: "consumeConditionGroup n p = Some (Inr (c, p1))" and s1: "sees p1 ?tail"
    by blast
  from assms(1) have "\<forall>v\<in>set us. reads_unit v" by (simp add: g)
  from inner_loop_units [OF this cs s1 assms(4) di, of "[c]"] obtain p2 where
    "consumeCondition_inner n [c] p1 = Some (Inr ([c] @ cs, p2))" and "sees p2 (t # rest)"
    by blast
  with grp w show ?thesis by auto
qed

text \<open>
  The outer loop on \<^verbatim>\<open>g0 OR g1 OR ...\<close>, followed by a token other than \<^verbatim>\<open>AND\<close>
  and \<^verbatim>\<open>OR\<close>.
\<close>

lemma outer_loop_units:
  assumes "\<forall>g'\<in>set (g # gs). \<forall>u\<in>set g'. reads_unit u"
    and "spec_group g = Some w" and "those (map spec_group gs) = Some ws"
    and "sees p (and_group_tokens g @
           concat (map (\<lambda>g. Token LOGICAL_OPERATOR ''OR'' # and_group_tokens g) gs) @ t # rest)"
    and "tvalue t \<noteq> ''AND''" and "tvalue t \<noteq> ''OR''"
    and "condition_depth (g # gs) \<le> n"
  shows "\<exists>p'. consumeCondition_outer n fs p =
      Some (Inr (if length (fs @ w # ws) = 1 then (fs @ w # ws) ! 0
                 else OrCondition (fs @ w # ws), p')) \<and> sees p' (t # rest)"
  using assms
proof (induction gs arbitrary: g w ws p n fs)
  case Nil
  from Nil.prems(7) obtain m where n: "n = Suc m" and m: "group_depth (map unit_depth g) \<le> m"
    by (cases n) (auto simp: condition_depth_def)
  from Nil.prems(3) have ws: "ws = []" by simp
  from Nil.prems(4) have s: "sees p (and_group_tokens g @ t # rest)" by simp
  from Nil.prems(1) have "\<forall>u\<in>set g. reads_unit u" by simp
  from group_round_units [OF this Nil.prems(2) s Nil.prems(5) m] obtain c p1 ics p2 where
    "consumeConditionGroup m p = Some (Inr (c, p1))"
    "consumeCondition_inner m [c] p1 = Some (Inr (ics, p2))"
    "w = (if length ics = 1 then ics ! 0 else AndCondition ics)" "sees p2 (t # rest)"
    by blast
  with Nil.prems(6) show ?case
    by (auto simp: n outer_Suc Let_def ws)
next
  case (Cons g' gs)
  from Cons.prems(7) obtain m where n: "n = Suc m" and m: "group_depth (map unit_depth g) \<le> m"
    and m': "condition_depth (g' # gs) \<le> m"
    by (cases n) (auto simp: condition_depth_def)
  from Cons.prems(3) obtain w' ws' where w': "spec_group g' = Some w'"
    and ws': "those (map spec_group gs) = Some ws'" and ws: "ws = w' # ws'"
    by (auto simp: those_Cons_Some simp del: those.simps)
  let ?or = "Token LOGICAL_OPERATOR ''OR''"
  let ?tail = "and_group_tokens g' @ concat (map (\<lambda>g. ?or # and_group_tokens g) gs) @ t # rest"
  from Cons.prems(4) have s: "sees p (and_group_tokens g @ ?or # ?tail)" by simp
  have "tvalue ?or \<noteq> ''AND''" by simp
  from Cons.prems(1) have "\<forall>u\<in>set g. reads_unit u" by simp
  from group_round_units [OF this Cons.prems(2) s \<open>tvalue ?or \<noteq> ''AND''\<close> m]
  obtain c p1 ics p2 where
    1: "consumeConditionGroup m p = Some (Inr (c, p1))" and
    2: "consumeCondition_inner m [c] p1 = Some (Inr (ics, p2))" and
    3: "w = (if length ics = 1 then ics ! 0 else AndCondition ics)" and
    4: "sees p2 (?or # ?tail)"
    by blast
  from 4 have cur: "tvalue (currentToken p2) = ''OR''" and s2: "sees (advance p2) ?tail"
    by simp_all
  from Cons.prems(1) have "\<forall>h\<in>set (g' # gs). \<forall>u\<in>set h. reads_unit u"
    by simp
  from Cons.IH [OF this w' ws' s2 Cons.prems(5,6) m', of "fs @ [w]"] obtain p' where
    "consumeCondition_outer m (fs @ [w]) (advance p2) =
      Some (Inr (if length ((fs @ [w]) @ w' # ws') = 1 then ((fs @ [w]) @ w' # ws') ! 0
                 else OrCondition ((fs @ [w]) @ w' # ws'), p'))" and "sees p' (t # rest)"
    by blast
  with 1 2 3 cur show ?case
    by (auto simp: n outer_Suc Let_def ws)
qed

lemma condition_units:
  assumes "\<forall>g\<in>set gs. \<forall>u\<in>set g. reads_unit u"
    and "spec_where gs = Some tree"
    and "sees p (condition_tokens gs @ t # rest)"
    and "tvalue t \<noteq> ''AND''" and "tvalue t \<noteq> ''OR''"
    and "condition_depth gs \<le> n"
  shows "\<exists>p'. consumeCondition_outer n [] p = Some (Inr (tree, p')) \<and> sees p' (t # rest)"
proof -
  from assms(2) obtain g gs' where gs: "gs = g # gs'"
    by (cases gs) (auto simp: spec_where_def collapsed_Nil)
  from assms(2) [unfolded spec_where_def gs list.map] obtain w ws where
    w: "spec_group g = Some w" and ws: "those (map spec_group gs') = Some ws"
    and tree: "tree = (if length (w # ws) = 1 then (w # ws) ! 0 else OrCondition (w # ws))"
    by (rule collapsed_Some)
  from assms(3) have s: "sees p (and_group_tokens g @
           concat (map (\<lambda>g. Token LOGICAL_OPERATOR ''OR'' # and_group_tokens g) gs') @ t # rest)"
    by (simp add: gs condition_tokens_def separated_Cons comp_def)
  from assms(1) have "\<forall>h\<in>set (g # gs'). \<forall>u\<in>set h. reads_unit u"
    by (simp add: gs)
  from outer_loop_units [OF this w ws s assms(4,5) assms(6) [unfolded gs], where fs = "[]"]
  show ?thesis by (auto simp: tree)
qed

text \<open>
Every unit is read as the grammar says, by induction on the nesting of parentheses.
\<close>

lemma reads_every_unit: "reads_unit u"
proof (induction u)
  case (Comparison k c v)
  show ?case
    unfolding reads_unit_def
  proof (intro allI impI)
    fix w p rest n
    assume w: "spec_unit (Comparison k c v) = Some w"
      and s: "sees p (unit_tokens (Comparison k c v) @ rest)"
      and n: "unit_depth (Comparison k c v) \<le> n"
    from n obtain m where m: "n = Suc m" by (cases n) auto
    from s have s': "sees p (k # c # v # rest)" by simp
    from w have "spec_comparison (k, c, v) = Some w" by simp
    from consumeComparison_sees [OF s' this] s'
    show "\<exists>p'. consumeConditionGroup n p = Some (Inr (w, p')) \<and> sees p' rest"
      by (auto simp: m group_Suc)
  qed
next
  case (Grouped gs)
  show ?case
    unfolding reads_unit_def
  proof (intro allI impI)
    fix w p rest n
    assume w: "spec_unit (Grouped gs) = Some w"
      and s: "sees p (unit_tokens (Grouped gs) @ rest)"
      and n: "unit_depth (Grouped gs) \<le> n"
    from n obtain m where m: "n = Suc m" and d: "condition_depth gs \<le> m"
      by (cases n) (auto simp: condition_depth_def)
    let ?l = "Token LPAREN ''(''" and ?r = "Token RPAREN '')''"
    from s have s': "sees p (?l # condition_tokens gs @ ?r # rest)"
      by (simp add: unit_tokens_Grouped del: unit_tokens.simps)
    then have cur: "currentToken p = ?l" and s1: "sees (advance p) (condition_tokens gs @ ?r # rest)"
      by simp_all
    from consumeToken_sees [OF s'] have l: "consumeToken LPAREN None p = Inr (?l, advance p)"
      by simp
    from w have tree: "spec_where gs = Some w"
      by (simp add: spec_unit_Grouped del: spec_unit.simps)
    have "tvalue ?r \<noteq> ''AND''" "tvalue ?r \<noteq> ''OR''" by simp_all
    from Grouped.IH have "\<forall>g\<in>set gs. \<forall>u\<in>set g. reads_unit u" by blast
    from condition_units [OF this tree s1 \<open>tvalue ?r \<noteq> ''AND''\<close> \<open>tvalue ?r \<noteq> ''OR''\<close> d]
    obtain p2 where
      o: "consumeCondition_outer m [] (advance p) = Some (Inr (w, p2))" and s2: "sees p2 (?r # rest)"
      by blast
    from consumeToken_sees [OF s2] have r: "consumeToken RPAREN None p2 = Inr (?r, advance p2)"
      by simp
    from s2 have "sees (advance p2) rest" by simp
    with cur l o r show "\<exists>p'. consumeConditionGroup n p = Some (Inr (w, p')) \<and> sees p' rest"
      by (auto simp: m group_Suc)
  qed
qed

text \<open>
  The where clause on a condition of the grammar. For every sequence of groups \<open>gs\<close>
  (units are comparisons and conditions in parentheses, nested to any depth) with tree
  \<open>tree\<close>: when the parser reads \<^verbatim>\<open>WHERE\<close>, the tokens of \<open>gs\<close> and then a token
  that is neither \<^verbatim>\<open>AND\<close> nor \<^verbatim>\<open>OR\<close>, \<^verbatim>\<open>_consumeWhereClauseOptional\<close> returns
  \<open>tree\<close> and stops at that token, at every depth from \<open>condition_depth gs\<close> on.
\<close>

lemma where_clause_of_condition:
  assumes "spec_where gs = Some tree"
    and "sees p (Token KEYWORD ''WHERE'' # condition_tokens gs @ [t])"
    and "tvalue t \<noteq> ''AND''" and "tvalue t \<noteq> ''OR''"
    and "condition_depth gs \<le> n"
  shows "\<exists>p'. consumeWhereClauseOptional n p = Some (Inr (Some tree, p')) \<and> currentToken p' = t"
proof -
  from assms(2) have cur: "currentToken p = Token KEYWORD ''WHERE''"
    and s: "sees (advance p) (condition_tokens gs @ t # [])"
    by simp_all
  from cur have tok: "consumeToken KEYWORD None p = Inr (Token KEYWORD ''WHERE'', advance p)"
    by (simp add: consumeToken_def falsy_def)
  have "\<forall>g\<in>set gs. \<forall>u\<in>set g. reads_unit u" by (simp add: reads_every_unit)
  from condition_units [OF this assms(1) s assms(3,4,5)] obtain p' where
    "consumeCondition_outer n [] (advance p) = Some (Inr (tree, p'))" and "sees p' [t]"
    by blast
  with cur tok show ?thesis
    by (auto simp: consumeWhereClauseOptional_def consumeCondition_def)
qed

section \<open>Properties of the specification\<close>

text \<open>
  C1. The claim: for a where clause \<^verbatim>\<open>parse()\<close> builds the flat sequence of the
  groups separated by \<^verbatim>\<open>OR\<close>, each the flat sequence of its units separated by
  \<^verbatim>\<open>AND\<close>, so that the condition \<^verbatim>\<open>a=1 OR b=2 AND c=3\<close> gives
  \<^verbatim>\<open>{or: [{eq: a 1}, {and: [{eq: b 2}, {eq: c 3}]}]}\<close>. The code: on
  \<^verbatim>\<open>SELECT x WHERE a=1 OR b=2 AND c=3\<close> \<^verbatim>\<open>parse()\<close> throws in the select clause,
  which wants a comma where \<^verbatim>\<open>WHERE\<close> stands, and builds no tree; so does the
  TypeScript source, which reads no \<^verbatim>\<open>SELECT\<close>, on the rest of the query.
  \<^verbatim>\<open>_consumeWhereClauseOptional\<close> itself, started at \<^verbatim>\<open>WHERE\<close>, returns the tree of
  the claim, at every depth from 4 on.
\<close>

theorem where_query_rejected_in_select_clause:
  "parse_js n (parser_from select_x_where_or_and) =
     Some (Inl (UnexpectedToken (Token KEYWORD ''WHERE'') 14)) \<and>
   parse_ts n (parser_from (drop 1 select_x_where_or_and)) =
     Some (Inl (UnexpectedToken (Token KEYWORD ''WHERE'') 14)) \<and>
   consumeWhereClauseOptional (4 + k) (parser_from (drop 2 select_x_where_or_and)) =
     Some (Inr (Some (OrCondition [EqualCondition ''a'' (NumberValue (Integer 1)),
        AndCondition [EqualCondition ''b'' (NumberValue (Integer 2)),
                      EqualCondition ''c'' (NumberValue (Integer 3))]]),
       \<lparr>lexer = \<lparr>pending = [], currentPosition = 33\<rparr>, currentToken = Token EOF []\<rparr>))"
proof -
  have "parse_js n (parser_from select_x_where_or_and) =
     Some (Inl (UnexpectedToken (Token KEYWORD ''WHERE'') 14))"
    by code_simp
  moreover have "parse_ts n (parser_from (drop 1 select_x_where_or_and)) =
     Some (Inl (UnexpectedToken (Token KEYWORD ''WHERE'') 14))"
    by code_simp
  moreover have w: "consumeWhereClauseOptional 4 (parser_from (drop 2 select_x_where_or_and)) =
     Some (Inr (Some (OrCondition [EqualCondition ''a'' (NumberValue (Integer 1)),
        AndCondition [EqualCondition ''b'' (NumberValue (Integer 2)),
                      EqualCondition ''c'' (NumberValue (Integer 3))]]),
       \<lparr>lexer = \<lparr>pending = [], currentPosition = 33\<rparr>, currentToken = Token EOF []\<rparr>))"
    by code_simp
  ultimately show ?thesis
    using consumeWhereClauseOptional_fuel [OF w, of k]
    by blast
qed

text \<open>
  C2. The claim: the select loop stops at the first lookahead that does not start a
  column and wants a comma after every column but the last, so that a query whose last
  column is followed by a clause keyword or by the end of input is accepted. The code:
  the loop consumes a comma after every column, the last included, and goes on until
  the lookahead is an identifier; hence \<^verbatim>\<open>parse()\<close> accepts no input at all, in either
  file. \<^verbatim>\<open>SELECT a\<close> and \<^verbatim>\<open>SELECT a GROUPBY a\<close> are rejected where the comma is
  wanted, and so is the column \<^verbatim>\<open>a\<close> alone by the TypeScript source, which reads no
  \<^verbatim>\<open>SELECT\<close>.
\<close>

theorem select_clause_wants_comma_after_last_column:
  "(\<forall>n p. \<exists>e. parse_js n p = Some (Inl e)) \<and>
   (\<forall>n p. \<exists>e. parse_ts n p = Some (Inl e)) \<and>
   parse_js n (parser_from select_a) = Some (Inl (UnexpectedToken (Token EOF []) 8)) \<and>
   parse_js n (parser_from select_a_groupby) =
     Some (Inl (UnexpectedToken (Token KEYWORD ''GROUPBY'') 16)) \<and>
   parse_ts n (parser_from (drop 1 select_a)) = Some (Inl (UnexpectedToken (Token EOF []) 8))"
proof -
  have "parse_js n (parser_from select_a) = Some (Inl (UnexpectedToken (Token EOF []) 8))"
    by code_simp
  moreover have "parse_js n (parser_from select_a_groupby) =
      Some (Inl (UnexpectedToken (Token KEYWORD ''GROUPBY'') 16))"
    by code_simp
  moreover have "parse_ts n (parser_from (drop 1 select_a)) =
      Some (Inl (UnexpectedToken (Token EOF []) 8))"
    by code_simp
  ultimately show ?thesis
    using parse_js_rejects parse_ts_rejects by blast
qed

text \<open>
  C3, as amended. A column descriptor returned by \<^verbatim>\<open>_consumeColumn\<close> of the compiled
  parser has as \<^verbatim>\<open>identifier\<close> the alias when a non-empty alias follows \<^verbatim>\<open>AS\<close>,
  otherwise \<^verbatim>\<open>FUNC(column)\<close> when there is a (non-empty) aggregation function, with
  nothing between the parentheses for \<^verbatim>\<open>COUNT\<close>, otherwise the column; the column is
  absent exactly when the aggregation function is \<^verbatim>\<open>COUNT\<close>; the identifier is never
  absent. A descriptor returned by the TypeScript source has no \<^verbatim>\<open>identifier\<close>: its
  \<^verbatim>\<open>displayName\<close> is the alias, absent when no \<^verbatim>\<open>AS\<close> follows, and nothing is
  synthesized.
\<close>

theorem column_descriptor_fields:
  "(consumeColumn_js p = Inr (c, p') \<longrightarrow>
      (\<exists>p1. consumeColumnSource p = Inr ((column c, aggregationFunction c), p1) \<and>
         col_identifier c =
           (case aliasText p1 of
              Some (x # xs) \<Rightarrow> Some (x # xs)
            | _ \<Rightarrow>
               (case aggregationFunction c of
                  Some (f # fs) \<Rightarrow>
                    Some ((f # fs) @ ''('' @ (case column c of None \<Rightarrow> [] | Some y \<Rightarrow> y) @ '')'')
                | _ \<Rightarrow> column c))) \<and>
      (aggregationFunction c = Some ''COUNT'' \<longrightarrow> column c = None) \<and>
      (aggregationFunction c \<noteq> Some ''COUNT'' \<longrightarrow> column c \<noteq> None) \<and>
      col_identifier c \<noteq> None) \<and>
   (consumeColumn_ts q = Inr (d, q') \<longrightarrow>
      (\<exists>q1. consumeColumnSource q = Inr ((column_ts d, aggregationFunction_ts d), q1) \<and>
         displayName d = aliasText q1) \<and>
      (aggregationFunction_ts d = Some ''COUNT'' \<longrightarrow> column_ts d = None) \<and>
      (aggregationFunction_ts d \<noteq> Some ''COUNT'' \<longrightarrow> column_ts d \<noteq> None))"
proof (intro conjI impI)
  assume a: "consumeColumn_js p = Inr (c, p')"
  from consumeColumn_js_parts [OF a] obtain p1 als where
    s: "consumeColumnSource p = Inr ((column c, aggregationFunction c), p1)" and
    al: "consumeAlias p1 = Inr (als, p')" and
    i: "col_identifier c = synthesizeIdentifier als (aggregationFunction c) (column c)"
    by blast
  from consumeAlias_result [OF al] have als: "als = aliasText p1"
    by (simp add: aliasText_def)
  note cnt = consumeColumnSource_count [OF s]
  from cnt show "aggregationFunction c = Some ''COUNT'' \<Longrightarrow> column c = None" by simp
  from cnt show "aggregationFunction c \<noteq> Some ''COUNT'' \<Longrightarrow> column c \<noteq> None" by simp
  have id: "col_identifier c =
           (case aliasText p1 of
              Some (x # xs) \<Rightarrow> Some (x # xs)
            | _ \<Rightarrow>
               (case aggregationFunction c of
                  Some (f # fs) \<Rightarrow>
                    Some ((f # fs) @ ''('' @ (case column c of None \<Rightarrow> [] | Some y \<Rightarrow> y) @ '')'')
                | _ \<Rightarrow> column c))"
    unfolding i als
    by (simp add: synthesizeIdentifier_def falsy_def split: option.splits list.splits)
  with s show "\<exists>p1. consumeColumnSource p = Inr ((column c, aggregationFunction c), p1) \<and>
         col_identifier c =
           (case aliasText p1 of
              Some (x # xs) \<Rightarrow> Some (x # xs)
            | _ \<Rightarrow>
               (case aggregationFunction c of
                  Some (f # fs) \<Rightarrow>
                    Some ((f # fs) @ ''('' @ (case column c of None \<Rightarrow> [] | Some y \<Rightarrow> y) @ '')'')
                | _ \<Rightarrow> column c))"
    by blast
  from id cnt show "col_identifier c \<noteq> None"
    by (auto split: option.splits list.splits)
next
  assume a: "consumeColumn_ts q = Inr (d, q')"
  from consumeColumn_ts_parts [OF a] obtain q1 where
    s: "consumeColumnSource q = Inr ((column_ts d, aggregationFunction_ts d), q1)" and
    al: "consumeAlias q1 = Inr (displayName d, q')"
    by blast
  from consumeAlias_result [OF al] s
  show "\<exists>q1. consumeColumnSource q = Inr ((column_ts d, aggregationFunction_ts d), q1) \<and>
         displayName d = aliasText q1"
    by (auto simp: aliasText_def)
  note cnt = consumeColumnSource_count [OF s]
  from cnt show "aggregationFunction_ts d = Some ''COUNT'' \<Longrightarrow> column_ts d = None" by simp
  from cnt show "aggregationFunction_ts d \<noteq> Some ''COUNT'' \<Longrightarrow> column_ts d \<noteq> None" by simp
qed

text \<open>
  Instances of C3 as amended: the columns of the example, \<^verbatim>\<open>COUNT() AS total\<close> and
  \<^verbatim>\<open>AVG(x) AS avgx\<close>, and \<^verbatim>\<open>AVG(x)\<close> without an alias.
\<close>

theorem column_descriptor_fields_witness:
  "consumeColumn_js (parser_from (drop 1 select_aliased)) =
     Inr (\<lparr>col_identifier = Some ''total'', column = None,
           aggregationFunction = Some ''COUNT''\<rparr>,
          parser_from (drop 6 select_aliased)) \<and>
   consumeColumn_js (parser_from (drop 7 select_aliased)) =
     Inr (\<lparr>col_identifier = Some ''avgx'', column = Some ''x'',
           aggregationFunction = Some ''AVG''\<rparr>,
          parser_from (drop 13 select_aliased)) \<and>
   consumeColumn_js (parser_from (drop 1 select_avg)) =
     Inr (\<lparr>col_identifier = Some ''AVG(x)'', column = Some ''x'',
           aggregationFunction = Some ''AVG''\<rparr>,
          parser_from (drop 5 select_avg)) \<and>
   consumeColumn_ts (parser_from (drop 7 select_aliased)) =
     Inr (\<lparr>column_ts = Some ''x'', displayName = Some ''avgx'',
           aggregationFunction_ts = Some ''AVG''\<rparr>,
          parser_from (drop 13 select_aliased)) \<and>
   col_identifier \<lparr>col_identifier = Some ''total'', column = None,
           aggregationFunction = Some ''COUNT''\<rparr> \<noteq> None"
proof -
  have 1: "consumeColumn_js (parser_from (drop 1 select_aliased)) =
     Inr (\<lparr>col_identifier = Some ''total'', column = None,
           aggregationFunction = Some ''COUNT''\<rparr>,
          parser_from (drop 6 select_aliased))"
    by code_simp
  have 2: "consumeColumn_js (parser_from (drop 7 select_aliased)) =
     Inr (\<lparr>col_identifier = Some ''avgx'', column = Some ''x'',
           aggregationFunction = Some ''AVG''\<rparr>,
          parser_from (drop 13 select_aliased))"
    by code_simp
  have 3: "consumeColumn_js (parser_from (drop 1 select_avg)) =
     Inr (\<lparr>col_identifier = Some ''AVG(x)'', column = Some ''x'',
           aggregationFunction = Some ''AVG''\<rparr>,
          parser_from (drop 5 select_avg))"
    by code_simp
  have 4: "consumeColumn_ts (parser_from (drop 7 select_aliased)) =
     Inr (\<lparr>column_ts = Some ''x'', displayName = Some ''avgx'',
           aggregationFunction_ts = Some ''AVG''\<rparr>,
          parser_from (drop 13 select_aliased))"
    by code_simp
  from 1 2 3 4 column_descriptor_fields [of "parser_from (drop 1 select_aliased)"
      "\<lparr>col_identifier = Some ''total'', column = None, aggregationFunction = Some ''COUNT''\<rparr>"
      "parser_from (drop 6 select_aliased)"]
  show ?thesis by simp
qed

text \<open>
  What refutes C3 as stated: the TypeScript source leaves the display name of
  \<^verbatim>\<open>AVG(x)\<close> absent, and the query of the example yields no select columns, since
  the select clause wants a comma where \<^verbatim>\<open>WHERE\<close> stands.
\<close>

theorem display_name_not_synthesized:
  "consumeColumn_ts (parser_from (drop 1 select_avg)) =
     Inr (\<lparr>column_ts = Some ''x'', displayName = None, aggregationFunction_ts = Some ''AVG''\<rparr>,
          parser_from (drop 5 select_avg)) \<and>
   consumeSelectClause_js (parser_from select_aliased) =
     Inl (UnexpectedToken (Token KEYWORD ''WHERE'') 45) \<and>
   parse_js 0 (parser_from select_aliased) =
     Some (Inl (UnexpectedToken (Token KEYWORD ''WHERE'') 45))"
proof -
  have "consumeColumn_ts (parser_from (drop 1 select_avg)) =
     Inr (\<lparr>column_ts = Some ''x'', displayName = None, aggregationFunction_ts = Some ''AVG''\<rparr>,
          parser_from (drop 5 select_avg))"
    by code_simp
  moreover have "consumeSelectClause_js (parser_from select_aliased) =
     Inl (UnexpectedToken (Token KEYWORD ''WHERE'') 45)"
    by code_simp
  moreover have "parse_js 0 (parser_from select_aliased) =
     Some (Inl (UnexpectedToken (Token KEYWORD ''WHERE'') 45))"
    by code_simp
  ultimately show ?thesis by blast
qed

text \<open>
  C4, as amended. \<^verbatim>\<open>_consumePlotArgs\<close> goes by the plot function's text. In the
  compiled parser \<^verbatim>\<open>BAR\<close> gives a bar plot call of the texts of two identifier
  tokens (categories, values), \<^verbatim>\<open>LINE\<close> and \<^verbatim>\<open>SCATTER\<close> a point plot call of two
  such texts (x, y). In the TypeScript source the two arguments are columns, read by
  \<^verbatim>\<open>_consumeColumn\<close>, and the call holds their descriptors. In both, any other text
  is rejected with \<^verbatim>\<open>Invalid plot type\<close>. The plot clauses of
  \<^verbatim>\<open>PLOT BAR(category, value) ...\<close> and \<^verbatim>\<open>PLOT LINE(x, y) ...\<close>, read by the compiled
  \<^verbatim>\<open>_consumePlotClauseOptional\<close>, are the ones of the spec.
\<close>

theorem plot_arguments_by_plot_function:
  "(consumePlotArgs_js plotFn p = Inr (plot, p') \<longrightarrow>
      (plotFn = ''BAR'' \<longrightarrow>
         plot = BarPlotCall ''BAR'' (tvalue (currentToken p))
                  (tvalue (currentToken (advance (advance p))))) \<and>
      (plotFn \<noteq> ''BAR'' \<longrightarrow>
         (plotFn = ''LINE'' \<or> plotFn = ''SCATTER'') \<and>
         plot = PointPlotCall plotFn (tvalue (currentToken p))
                  (tvalue (currentToken (advance (advance p)))))) \<and>
   (consumePlotArgs_ts plotFn q = Inr (plot', q') \<longrightarrow>
      (\<exists>c1 p1 t p2 c2. consumeColumn_ts q = Inr (c1, p1) \<and>
         consumeToken COMMA None p1 = Inr (t, p2) \<and> consumeColumn_ts p2 = Inr (c2, q') \<and>
         (plotFn = ''BAR'' \<longrightarrow> plot' = BarPlotCall_ts ''BAR'' c1 c2) \<and>
         (plotFn \<noteq> ''BAR'' \<longrightarrow>
            (plotFn = ''LINE'' \<or> plotFn = ''SCATTER'') \<and> plot' = PointPlotCall_ts plotFn c1 c2))) \<and>
   (other \<notin> {''BAR'', ''LINE'', ''SCATTER''} \<longrightarrow>
      consumePlotArgs_js other p = Inl (InvalidPlotType other) \<and>
      consumePlotArgs_ts other p = Inl (InvalidPlotType other)) \<and>
   consumePlotClauseOptional consumePlotArgs_js (parser_from plot_bar) =
     Inr (Some (BarPlotCall ''BAR'' ''category'' ''value''), parser_from (drop 7 plot_bar)) \<and>
   consumePlotClauseOptional consumePlotArgs_js (parser_from plot_line) =
     Inr (Some (PointPlotCall ''LINE'' ''x'' ''y''), parser_from (drop 7 plot_line))"
proof -
  have 1: "consumePlotClauseOptional consumePlotArgs_js (parser_from plot_bar) =
     Inr (Some (BarPlotCall ''BAR'' ''category'' ''value''), parser_from (drop 7 plot_bar))"
    by code_simp
  have 2: "consumePlotClauseOptional consumePlotArgs_js (parser_from plot_line) =
     Inr (Some (PointPlotCall ''LINE'' ''x'' ''y''), parser_from (drop 7 plot_line))"
    by code_simp
  have 3: "consumePlotArgs_ts plotFn q = Inr (plot', q') \<longrightarrow>
      (\<exists>c1 p1 t p2 c2. consumeColumn_ts q = Inr (c1, p1) \<and>
         consumeToken COMMA None p1 = Inr (t, p2) \<and> consumeColumn_ts p2 = Inr (c2, q') \<and>
         (plotFn = ''BAR'' \<longrightarrow> plot' = BarPlotCall_ts ''BAR'' c1 c2) \<and>
         (plotFn \<noteq> ''BAR'' \<longrightarrow>
            (plotFn = ''LINE'' \<or> plotFn = ''SCATTER'') \<and> plot' = PointPlotCall_ts plotFn c1 c2))"
  proof
    assume "consumePlotArgs_ts plotFn q = Inr (plot', q')"
    from consumePlotArgs_ts_Inr [OF this] show "\<exists>c1 p1 t p2 c2. consumeColumn_ts q = Inr (c1, p1) \<and>
         consumeToken COMMA None p1 = Inr (t, p2) \<and> consumeColumn_ts p2 = Inr (c2, q') \<and>
         (plotFn = ''BAR'' \<longrightarrow> plot' = BarPlotCall_ts ''BAR'' c1 c2) \<and>
         (plotFn \<noteq> ''BAR'' \<longrightarrow>
            (plotFn = ''LINE'' \<or> plotFn = ''SCATTER'') \<and> plot' = PointPlotCall_ts plotFn c1 c2)"
      by (cases "plotFn = ''BAR''") auto
  qed
  have 4: "consumePlotArgs_js plotFn p = Inr (plot, p') \<longrightarrow>
      (plotFn = ''BAR'' \<longrightarrow>
         plot = BarPlotCall ''BAR'' (tvalue (currentToken p))
                  (tvalue (currentToken (advance (advance p))))) \<and>
      (plotFn \<noteq> ''BAR'' \<longrightarrow>
         (plotFn = ''LINE'' \<or> plotFn = ''SCATTER'') \<and>
         plot = PointPlotCall plotFn (tvalue (currentToken p))
                  (tvalue (currentToken (advance (advance p)))))"
  proof
    assume "consumePlotArgs_js plotFn p = Inr (plot, p')"
    from consumePlotArgs_js_Inr [OF this] show "(plotFn = ''BAR'' \<longrightarrow>
         plot = BarPlotCall ''BAR'' (tvalue (currentToken p))
                  (tvalue (currentToken (advance (advance p))))) \<and>
      (plotFn \<noteq> ''BAR'' \<longrightarrow>
         (plotFn = ''LINE'' \<or> plotFn = ''SCATTER'') \<and>
         plot = PointPlotCall plotFn (tvalue (currentToken p))
                  (tvalue (currentToken (advance (advance p)))))"
      by (cases "plotFn = ''BAR''") auto
  qed
  have 5: "other \<notin> {''BAR'', ''LINE'', ''SCATTER''} \<longrightarrow>
      consumePlotArgs_js other p = Inl (InvalidPlotType other) \<and>
      consumePlotArgs_ts other p = Inl (InvalidPlotType other)"
    by (simp add: consumePlotArgs_js_other consumePlotArgs_ts_other)
  from 1 2 3 4 5 show ?thesis by blast
qed

text \<open>
  An instance of C4 as amended: the arguments of \<^verbatim>\<open>PLOT BAR(category, value)\<close> in
  both files, and the plot function \<^verbatim>\<open>PIE\<close>.
\<close>

theorem plot_arguments_by_plot_function_witness:
  "consumePlotArgs_js ''BAR'' (parser_from (drop 3 plot_bar)) =
     Inr (BarPlotCall ''BAR'' ''category'' ''value'', parser_from (drop 6 plot_bar)) \<and>
   tvalue (currentToken (parser_from (drop 3 plot_bar))) = ''category'' \<and>
   tvalue (currentToken (advance (advance (parser_from (drop 3 plot_bar))))) = ''value'' \<and>
   consumePlotArgs_ts ''BAR'' (parser_from (drop 3 plot_bar)) =
     Inr (BarPlotCall_ts ''BAR''
            \<lparr>column_ts = Some ''category'', displayName = None, aggregationFunction_ts = None\<rparr>
            \<lparr>column_ts = Some ''value'', displayName = None, aggregationFunction_ts = None\<rparr>,
          parser_from (drop 6 plot_bar)) \<and>
   consumePlotArgs_js ''PIE'' (parser_from (drop 3 plot_bar)) = Inl (InvalidPlotType ''PIE'')"
proof -
  have 1: "consumePlotArgs_js ''BAR'' (parser_from (drop 3 plot_bar)) =
     Inr (BarPlotCall ''BAR'' ''category'' ''value'', parser_from (drop 6 plot_bar))"
    by code_simp
  have 2: "consumePlotArgs_ts ''BAR'' (parser_from (drop 3 plot_bar)) =
     Inr (BarPlotCall_ts ''BAR''
            \<lparr>column_ts = Some ''category'', displayName = None, aggregationFunction_ts = None\<rparr>
            \<lparr>column_ts = Some ''value'', displayName = None, aggregationFunction_ts = None\<rparr>,
          parser_from (drop 6 plot_bar))"
    by code_simp
  have 3: "''PIE'' \<notin> {''BAR'', ''LINE'', ''SCATTER''}" by simp
  from 1 2 3 plot_arguments_by_plot_function [of "''BAR''" "parser_from (drop 3 plot_bar)"
      "BarPlotCall ''BAR'' ''category'' ''value''" "parser_from (drop 6 plot_bar)"
      "parser_from (drop 3 plot_bar)" _ _ "''PIE''"]
  show ?thesis by simp
qed

text \<open>
  What refutes C4 as stated: the TypeScript source takes \<^verbatim>\<open>PLOT BAR(COUNT(), total)\<close>,
  whose categories have no identifier, into a call of column descriptors, where the
  compiled parser throws; and on the query of the example \<^verbatim>\<open>parse()\<close> throws in both
  files and yields no plot clause.
\<close>

theorem plot_clause_of_columns:
  "consumePlotClauseOptional consumePlotArgs_ts (parser_from plot_bar_count) =
     Inr (Some (BarPlotCall_ts ''BAR''
            \<lparr>column_ts = None, displayName = None, aggregationFunction_ts = Some ''COUNT''\<rparr>
            \<lparr>column_ts = Some ''total'', displayName = None, aggregationFunction_ts = None\<rparr>),
          \<lparr>lexer = \<lparr>pending = [], currentPosition = 24\<rparr>, currentToken = Token EOF []\<rparr>) \<and>
   consumePlotClauseOptional consumePlotArgs_js (parser_from plot_bar_count) =
     Inl (UnexpectedToken (Token AGGREGATION_FUNCTION ''COUNT'') 14) \<and>
   parse_js 0 (parser_from plot_bar) =
     Some (Inl (UnexpectedToken (Token IDENTIFIER ''value'') 48)) \<and>
   parse_ts 0 (parser_from plot_bar) =
     Some (Inl (UnexpectedToken (Token KEYWORD ''SELECT'') 32))"
proof -
  have "consumePlotClauseOptional consumePlotArgs_ts (parser_from plot_bar_count) =
     Inr (Some (BarPlotCall_ts ''BAR''
            \<lparr>column_ts = None, displayName = None, aggregationFunction_ts = Some ''COUNT''\<rparr>
            \<lparr>column_ts = Some ''total'', displayName = None, aggregationFunction_ts = None\<rparr>),
          \<lparr>lexer = \<lparr>pending = [], currentPosition = 24\<rparr>, currentToken = Token EOF []\<rparr>)"
    by code_simp
  moreover have "consumePlotClauseOptional consumePlotArgs_js (parser_from plot_bar_count) =
     Inl (UnexpectedToken (Token AGGREGATION_FUNCTION ''COUNT'') 14)"
    by code_simp
  moreover have "parse_js 0 (parser_from plot_bar) =
     Some (Inl (UnexpectedToken (Token IDENTIFIER ''value'') 48))"
    by code_simp
  moreover have "parse_ts 0 (parser_from plot_bar) =
     Some (Inl (UnexpectedToken (Token KEYWORD ''SELECT'') 32))"
    by code_simp
  ultimately show ?thesis by blast
qed

text \<open>
  C5. In a comparison (an identifier, then a comparison operator), the operators
  \<^verbatim>\<open>>\<close>, \<^verbatim>\<open>>=\<close>, \<^verbatim>\<open><\<close>, \<^verbatim>\<open><=\<close> are accepted exactly with a \<^verbatim>\<open>NUMBER\<close> token
  as right-hand operand, and \<^verbatim>\<open>=\<close>, \<^verbatim>\<open>!=\<close> exactly with a \<^verbatim>\<open>STRING\<close>, \<^verbatim>\<open>NUMBER\<close>
  or \<^verbatim>\<open>NULL\<close> token; otherwise \<^verbatim>\<open>_consumeComparison\<close> throws. The comparison
  \<^verbatim>\<open>a = TRUE\<close> throws, and \<^verbatim>\<open>parse()\<close> on \<^verbatim>\<open>SELECT a WHERE a = TRUE\<close> throws and
  returns no tree (it throws in the select clause, before the comparison is reached).
\<close>

theorem comparison_operand_kinds:
  "(ttype (currentToken p) = IDENTIFIER \<longrightarrow>
    ttype (currentToken (advance p)) = COMPARISON_OPERATOR \<longrightarrow>
    operatorText p \<in> {''>'', ''>='', ''<'', ''<=''} \<longrightarrow>
      ((\<exists>r. consumeComparison p = Inr r) \<longleftrightarrow> ttype (operand p) = NUMBER)) \<and>
   (ttype (currentToken p) = IDENTIFIER \<longrightarrow>
    ttype (currentToken (advance p)) = COMPARISON_OPERATOR \<longrightarrow>
    operatorText p \<in> {''='', ''!=''} \<longrightarrow>
      ((\<exists>r. consumeComparison p = Inr r) \<longleftrightarrow> ttype (operand p) \<in> {STRING, NUMBER, NULL})) \<and>
   consumeComparison (parser_from (drop 3 select_eq_true)) = Inl EqualComparisonNotAllowed \<and>
   parse_js n (parser_from select_eq_true) =
     Some (Inl (UnexpectedToken (Token KEYWORD ''WHERE'') 14))"
proof -
  have num: "(\<exists>r. consumeNumber q = Inr r) \<longleftrightarrow> ttype (currentToken q) = NUMBER" for q
    by (simp add: consumeNumber_cases)
  have rel: "(\<exists>r. consumeComparison p = Inr r) \<longleftrightarrow> ttype (operand p) = NUMBER"
    if "ttype (currentToken p) = IDENTIFIER"
      "ttype (currentToken (advance p)) = COMPARISON_OPERATOR"
      "operatorText p \<in> {''>'', ''>='', ''<'', ''<=''}"
    using that(3) num [of "advance (advance p)"]
    by (auto simp: consumeComparison_operator [OF that(1,2)] Let_def andThen_is_Inr operand_def
        simp del: split_paired_Ex)
  have eq: "(\<exists>r. consumeComparison p = Inr r) \<longleftrightarrow> ttype (operand p) \<in> {STRING, NUMBER, NULL}"
    if "ttype (currentToken p) = IDENTIFIER"
      "ttype (currentToken (advance p)) = COMPARISON_OPERATOR"
      "operatorText p \<in> {''='', ''!=''}"
    using that(3) consumeComparisonValue_Inr [of "advance (advance p)"]
    by (auto simp: consumeComparison_operator [OF that(1,2)] Let_def andThen_is_Inr operand_def
        simp del: split_paired_Ex)
  have e1: "consumeComparison (parser_from (drop 3 select_eq_true)) = Inl EqualComparisonNotAllowed"
    by code_simp
  have e2: "parse_js n (parser_from select_eq_true) =
     Some (Inl (UnexpectedToken (Token KEYWORD ''WHERE'') 14))"
    by code_simp
  from rel eq e1 e2 show ?thesis by blast
qed

text \<open>
  Instances of C5: \<^verbatim>\<open>a = TRUE\<close> is refused and \<^verbatim>\<open>x > 0\<close> is accepted.
\<close>

theorem comparison_operand_kinds_witness:
  "ttype (currentToken (parser_from (drop 3 select_eq_true))) = IDENTIFIER \<and>
   ttype (currentToken (advance (parser_from (drop 3 select_eq_true)))) = COMPARISON_OPERATOR \<and>
   operatorText (parser_from (drop 3 select_eq_true)) = ''='' \<and>
   ttype (operand (parser_from (drop 3 select_eq_true))) = IDENTIFIER \<and>
   \<not> (\<exists>r. consumeComparison (parser_from (drop 3 select_eq_true)) = Inr r) \<and>
   operatorText (parser_from (drop 14 select_aliased)) = ''>'' \<and>
   ttype (operand (parser_from (drop 14 select_aliased))) = NUMBER \<and>
   (\<exists>r. consumeComparison (parser_from (drop 14 select_aliased)) = Inr r)"
proof -
  let ?p = "parser_from (drop 3 select_eq_true)"
  let ?q = "parser_from (drop 14 select_aliased)"
  have p: "ttype (currentToken ?p) = IDENTIFIER"
    "ttype (currentToken (advance ?p)) = COMPARISON_OPERATOR"
    "operatorText ?p = ''=''" "ttype (operand ?p) = IDENTIFIER"
    by code_simp+
  have q: "ttype (currentToken ?q) = IDENTIFIER"
    "ttype (currentToken (advance ?q)) = COMPARISON_OPERATOR"
    "operatorText ?q = ''>''" "ttype (operand ?q) = NUMBER"
    by code_simp+
  from p q comparison_operand_kinds [of ?p 0] comparison_operand_kinds [of ?q 0]
  show ?thesis by simp
qed

text \<open>
  C6. The claim: \<^verbatim>\<open>SELECT a LIMIT 10\<close> yields the limit 10 with offset 0, and
  \<^verbatim>\<open>SELECT a LIMIT 10 OFFSET 5\<close> the limit 10 with offset 5. The code: on both queries
  \<^verbatim>\<open>parse()\<close> throws in the select clause, which wants a comma where \<^verbatim>\<open>LIMIT\<close>
  stands. The limit clause itself, started at \<^verbatim>\<open>LIMIT\<close>, gives the two values.
\<close>

theorem limit_queries_rejected_in_select_clause:
  "parse_js n (parser_from select_a_limit) =
     Some (Inl (UnexpectedToken (Token KEYWORD ''LIMIT'') 14)) \<and>
   parse_js n (parser_from select_a_limit_offset) =
     Some (Inl (UnexpectedToken (Token KEYWORD ''LIMIT'') 14)) \<and>
   consumeLimitAndOffsetClauseOptional (parser_from (drop 2 select_a_limit)) =
     Inr (Some \<lparr>limit = Integer 10, offset = Integer 0\<rparr>,
          \<lparr>lexer = \<lparr>pending = [], currentPosition = 17\<rparr>, currentToken = Token EOF []\<rparr>) \<and>
   consumeLimitAndOffsetClauseOptional (parser_from (drop 2 select_a_limit_offset)) =
     Inr (Some \<lparr>limit = Integer 10, offset = Integer 5\<rparr>,
          \<lparr>lexer = \<lparr>pending = [], currentPosition = 26\<rparr>, currentToken = Token EOF []\<rparr>)"
proof -
  have "parse_js n (parser_from select_a_limit) =
      Some (Inl (UnexpectedToken (Token KEYWORD ''LIMIT'') 14))"
    by code_simp
  moreover have "parse_js n (parser_from select_a_limit_offset) =
      Some (Inl (UnexpectedToken (Token KEYWORD ''LIMIT'') 14))"
    by code_simp
  moreover have "consumeLimitAndOffsetClauseOptional (parser_from (drop 2 select_a_limit)) =
      Inr (Some \<lparr>limit = Integer 10, offset = Integer 0\<rparr>,
           \<lparr>lexer = \<lparr>pending = [], currentPosition = 17\<rparr>, currentToken = Token EOF []\<rparr>)"
    by code_simp
  moreover have
    "consumeLimitAndOffsetClauseOptional (parser_from (drop 2 select_a_limit_offset)) =
      Inr (Some \<lparr>limit = Integer 10, offset = Integer 5\<rparr>,
           \<lparr>lexer = \<lparr>pending = [], currentPosition = 26\<rparr>, currentToken = Token EOF []\<rparr>)"
    by code_simp
  ultimately show ?thesis by blast
qed

text \<open>
  C7. The claim: every query that \<^verbatim>\<open>parse()\<close> returns has at least one select
  column and, in its predicate tree, only \<^verbatim>\<open>and\<close> and \<^verbatim>\<open>or\<close> nodes of at least two
  children, so that \<^verbatim>\<open>WHERE (a>1)\<close> parses to the comparison itself. The code:
  \<^verbatim>\<open>parse()\<close> returns no query, in either file; on \<^verbatim>\<open>SELECT a WHERE (a>1)\<close> it
  throws in the select clause, which wants a comma where \<^verbatim>\<open>WHERE\<close> stands, and so
  does the TypeScript source on the rest of the query. \<^verbatim>\<open>_consumeWhereClauseOptional\<close>
  itself, started at \<^verbatim>\<open>WHERE\<close>, returns the comparison, at every depth from 4 on.
\<close>

theorem no_query_returned_to_satisfy_invariants:
  "parse_js n (parser_from select_a_where_grouped) =
     Some (Inl (UnexpectedToken (Token KEYWORD ''WHERE'') 14)) \<and>
   parse_ts n (parser_from (drop 1 select_a_where_grouped)) =
     Some (Inl (UnexpectedToken (Token KEYWORD ''WHERE'') 14)) \<and>
   (\<nexists>q. parse_js m p = Some (Inr q)) \<and>
   (\<nexists>q. parse_ts m p = Some (Inr q)) \<and>
   consumeWhereClauseOptional (4 + k) (parser_from (drop 2 select_a_where_grouped)) =
     Some (Inr (Some (GreaterThanCondition ''a'' (Integer 1)),
       \<lparr>lexer = \<lparr>pending = [], currentPosition = 20\<rparr>, currentToken = Token EOF []\<rparr>))"
proof -
  have "parse_js n (parser_from select_a_where_grouped) =
     Some (Inl (UnexpectedToken (Token KEYWORD ''WHERE'') 14))"
    by code_simp
  moreover have "parse_ts n (parser_from (drop 1 select_a_where_grouped)) =
     Some (Inl (UnexpectedToken (Token KEYWORD ''WHERE'') 14))"
    by code_simp
  moreover have "\<nexists>q. parse_js m p = Some (Inr q)"
    using parse_js_rejects [of m p] by auto
  moreover have "\<nexists>q. parse_ts m p = Some (Inr q)"
    using parse_ts_rejects [of m p] by auto
  moreover have w: "consumeWhereClauseOptional 4 (parser_from (drop 2 select_a_where_grouped)) =
     Some (Inr (Some (GreaterThanCondition ''a'' (Integer 1)),
       \<lparr>lexer = \<lparr>pending = [], currentPosition = 20\<rparr>, currentToken = Token EOF []\<rparr>))"
    by code_simp
  ultimately show ?thesis
    using consumeWhereClauseOptional_fuel [OF w, of k]
    by blast
qed

text \<open>
  C8. The claim: a valid query followed by further tokens is rejected at the last
  step of \<^verbatim>\<open>parse()\<close>, the consumption of the end of input. The code: on
  \<^verbatim>\<open>SELECT a LIMIT 10 x\<close> the error is thrown earlier, in the select clause, and
  names \<^verbatim>\<open>LIMIT\<close> at offset 14 and not the trailing \<^verbatim>\<open>x\<close>. The last step itself
  does reject every current token that is not the end of input.
\<close>

theorem trailing_token_rejected_before_end_of_input_check:
  "parse_js n (parser_from select_a_limit_garbage) =
     Some (Inl (UnexpectedToken (Token KEYWORD ''LIMIT'') 14)) \<and>
   consumeSelectClause_js (parser_from select_a_limit_garbage) =
     Inl (UnexpectedToken (Token KEYWORD ''LIMIT'') 14) \<and>
   consumeToken EOF None p =
     (if ttype (currentToken p) = EOF then Inr (currentToken p, advance p)
      else Inl (UnexpectedToken (currentToken p) (currentPosition (lexer p))))"
proof -
  have "parse_js n (parser_from select_a_limit_garbage) =
     Some (Inl (UnexpectedToken (Token KEYWORD ''LIMIT'') 14))"
    by code_simp
  moreover have "consumeSelectClause_js (parser_from select_a_limit_garbage) =
     Inl (UnexpectedToken (Token KEYWORD ''LIMIT'') 14)"
    by code_simp
  ultimately show ?thesis
    using end_of_input_check [of p] by simp
qed

text \<open>
  C9, as amended. An error thrown by \<^verbatim>\<open>_consumeToken\<close> carries the current token
  and the lexer's scan position. The three other errors carry neither: an unknown
  plot function gives \<^verbatim>\<open>Invalid plot type\<close> with the function's text, an unknown
  comparison operator \<^verbatim>\<open>Invalid comparison operator\<close> with the operator's text, and
  an operand of \<^verbatim>\<open>=\<close> or \<^verbatim>\<open>!=\<close> of another kind a fixed message.
\<close>

theorem error_message_contents:
  "(consumeToken ty v p = Inl e \<longrightarrow>
      message_token e = Some (currentToken p) \<and>
      message_position e = Some (currentPosition (lexer p))) \<and>
   (plotFn \<notin> {''BAR'', ''LINE'', ''SCATTER''} \<longrightarrow>
      consumePlotArgs_js plotFn p = Inl (InvalidPlotType plotFn) \<and>
      consumePlotArgs_ts plotFn p = Inl (InvalidPlotType plotFn)) \<and>
   (ttype (currentToken p) = IDENTIFIER \<longrightarrow>
    ttype (currentToken (advance p)) = COMPARISON_OPERATOR \<longrightarrow>
    operatorText p \<notin> {''>'', ''>='', ''<'', ''<='', ''='', ''!=''} \<longrightarrow>
      consumeComparison p = Inl (InvalidComparisonOperator (operatorText p))) \<and>
   (consumeComparisonValue p = Inl e' \<longrightarrow> e' = EqualComparisonNotAllowed)"
  using consumeToken_Inl [of ty v p e] consumePlotArgs_js_other [of plotFn p]
    consumePlotArgs_ts_other [of plotFn p] consumeComparison_other [of p]
    consumeComparisonValue_Inl [of p e']
  by auto

text \<open>
  An instance of C9 as amended: the comma wanted at \<^verbatim>\<open>LIMIT\<close>, the plot function
  \<^verbatim>\<open>PIE\<close>, the operand \<^verbatim>\<open>TRUE\<close>.
\<close>

theorem error_message_contents_witness:
  "consumeToken COMMA None (parser_from (drop 2 select_a_limit)) =
     Inl (UnexpectedToken (Token KEYWORD ''LIMIT'') 14) \<and>
   message_token (UnexpectedToken (Token KEYWORD ''LIMIT'') 14) = Some (Token KEYWORD ''LIMIT'') \<and>
   message_position (UnexpectedToken (Token KEYWORD ''LIMIT'') 14) = Some 14 \<and>
   consumePlotArgs_js ''PIE'' (parser_from []) = Inl (InvalidPlotType ''PIE'') \<and>
   consumeComparisonValue (parser_from (drop 5 select_eq_true)) = Inl EqualComparisonNotAllowed"
proof -
  have 1: "consumeToken COMMA None (parser_from (drop 2 select_a_limit)) =
     Inl (UnexpectedToken (Token KEYWORD ''LIMIT'') 14)"
    by code_simp
  have 2: "consumeComparisonValue (parser_from (drop 5 select_eq_true)) =
     Inl EqualComparisonNotAllowed"
    by code_simp
  have 3: "''PIE'' \<notin> {''BAR'', ''LINE'', ''SCATTER''}" by simp
  from 1 2 3 error_message_contents [of COMMA None "parser_from (drop 2 select_a_limit)"
      "UnexpectedToken (Token KEYWORD ''LIMIT'') 14" "''PIE''"]
    error_message_contents [of COMMA None "parser_from []" _ "''PIE''"]
  show ?thesis by simp
qed

text \<open>
  What refutes C9 as stated: the error of the comparison \<^verbatim>\<open>a = TRUE\<close> carries no
  token and no position, and neither does the error of \<^verbatim>\<open>parse()\<close> on a plot
  function token \<^verbatim>\<open>PIE\<close>.
\<close>

theorem error_without_token_or_position:
  "consumeComparison (parser_from (drop 3 select_eq_true)) = Inl EqualComparisonNotAllowed \<and>
   message_token EqualComparisonNotAllowed = None \<and>
   message_position EqualComparisonNotAllowed = None \<and>
   parse_js 0 (parser_from [(Token KEYWORD ''PLOT'', 4), (Token PLOT_FUNCTION ''PIE'', 8),
      (Token LPAREN ''('', 9)]) = Some (Inl (InvalidPlotType ''PIE'')) \<and>
   message_position (InvalidPlotType ''PIE'') = None"
proof -
  have "consumeComparison (parser_from (drop 3 select_eq_true)) = Inl EqualComparisonNotAllowed"
    by code_simp
  moreover have "parse_js 0 (parser_from [(Token KEYWORD ''PLOT'', 4),
      (Token PLOT_FUNCTION ''PIE'', 8), (Token LPAREN ''('', 9)]) =
      Some (Inl (InvalidPlotType ''PIE''))"
    by code_simp
  ultimately show ?thesis by simp
qed

text \<open>
  C10, as amended. The two files are not equivalent; they are related as follows.
  \<^verbatim>\<open>_consumeColumn\<close> of the compiled parser is the one of the TypeScript source with
  the descriptor converted (the identifier synthesized from the display name); its
  \<^verbatim>\<open>_consumeSelectClause\<close> consumes the keyword \<^verbatim>\<open>SELECT\<close> and then is the one of
  the TypeScript source, descriptors converted; and where the TypeScript source reads
  plot arguments that are identifiers alone, the compiled parser reads the same call
  with their texts.
\<close>

theorem compiled_copy_and_source_related:
  "consumeColumn_js p = compiled (consumeColumn_ts p) toCompiled \<and>
   consumeSelectClause_js p =
     andThen (consumeToken KEYWORD (Some ''SELECT'') p)
       (\<lambda>(k, p1). compiled (consumeSelectClause_ts p1) (map toCompiled)) \<and>
   (consumePlotArgs_ts plotFn p = Inr (plot, p') \<longrightarrow> bare_plot plot \<longrightarrow>
      consumePlotArgs_js plotFn p = Inr (toCompiledPlot plot, p'))"
  using consumeColumn_js_ts [of p] consumeSelectClause_js_ts [of p]
    consumePlotArgs_bare [of plotFn p plot p']
  by blast

text \<open>
  An instance of C10 as amended: the arguments of \<^verbatim>\<open>PLOT BAR(category, value)\<close>.
\<close>

theorem compiled_copy_and_source_related_witness:
  "consumePlotArgs_ts ''BAR'' (parser_from (drop 3 plot_bar)) =
     Inr (BarPlotCall_ts ''BAR''
            \<lparr>column_ts = Some ''category'', displayName = None, aggregationFunction_ts = None\<rparr>
            \<lparr>column_ts = Some ''value'', displayName = None, aggregationFunction_ts = None\<rparr>,
          parser_from (drop 6 plot_bar)) \<and>
   consumePlotArgs_js ''BAR'' (parser_from (drop 3 plot_bar)) =
     Inr (BarPlotCall ''BAR'' ''category'' ''value'', parser_from (drop 6 plot_bar))"
proof -
  have 1: "consumePlotArgs_ts ''BAR'' (parser_from (drop 3 plot_bar)) =
     Inr (BarPlotCall_ts ''BAR''
            \<lparr>column_ts = Some ''category'', displayName = None, aggregationFunction_ts = None\<rparr>
            \<lparr>column_ts = Some ''value'', displayName = None, aggregationFunction_ts = None\<rparr>,
          parser_from (drop 6 plot_bar))"
    by code_simp
  from 1 compiled_copy_and_source_related [of "parser_from (drop 3 plot_bar)" "''BAR''"
      "BarPlotCall_ts ''BAR''
            \<lparr>column_ts = Some ''category'', displayName = None, aggregationFunction_ts = None\<rparr>
            \<lparr>column_ts = Some ''value'', displayName = None, aggregationFunction_ts = None\<rparr>"
      "parser_from (drop 6 plot_bar)"]
  show ?thesis by simp
qed

text \<open>
  What refutes C10 as stated: on \<^verbatim>\<open>SELECT a, b\<close> the compiled parser throws at
  \<^verbatim>\<open>b\<close> after three tokens and the TypeScript source at \<^verbatim>\<open>SELECT\<close> after none,
  and \<^verbatim>\<open>PLOT BAR(COUNT(), total)\<close> is a plot clause for the TypeScript source and an
  error for the compiled parser.
\<close>

theorem implementations_disagree:
  "parse_js 0 (parser_from select_a_b) =
     Some (Inl (UnexpectedToken (Token IDENTIFIER ''b'') 11)) \<and>
   parse_ts 0 (parser_from select_a_b) =
     Some (Inl (UnexpectedToken (Token KEYWORD ''SELECT'') 6)) \<and>
   consumePlotClauseOptional consumePlotArgs_ts (parser_from plot_bar_count) =
     Inr (Some (BarPlotCall_ts ''BAR''
            \<lparr>column_ts = None, displayName = None, aggregationFunction_ts = Some ''COUNT''\<rparr>
            \<lparr>column_ts = Some ''total'', displayName = None, aggregationFunction_ts = None\<rparr>),
          \<lparr>lexer = \<lparr>pending = [], currentPosition = 24\<rparr>, currentToken = Token EOF []\<rparr>) \<and>
   consumePlotClauseOptional consumePlotArgs_js (parser_from plot_bar_count) =
     Inl (UnexpectedToken (Token AGGREGATION_FUNCTION ''COUNT'') 14)"
proof -
  have "parse_js 0 (parser_from select_a_b) =
     Some (Inl (UnexpectedToken (Token IDENTIFIER ''b'') 11))"
    by code_simp
  moreover have "parse_ts 0 (parser_from select_a_b) =
     Some (Inl (UnexpectedToken (Token KEYWORD ''SELECT'') 6))"
    by code_simp
  moreover have "consumePlotClauseOptional consumePlotArgs_ts (parser_from plot_bar_count) =
     Inr (Some (BarPlotCall_ts ''BAR''
            \<lparr>column_ts = None, displayName = None, aggregationFunction_ts = Some ''COUNT''\<rparr>
            \<lparr>column_ts = Some ''total'', displayName = None, aggregationFunction_ts = None\<rparr>),
          \<lparr>lexer = \<lparr>pending = [], currentPosition = 24\<rparr>, currentToken = Token EOF []\<rparr>)"
    by code_simp
  moreover have "consumePlotClauseOptional consumePlotArgs_js (parser_from plot_bar_count) =
     Inl (UnexpectedToken (Token AGGREGATION_FUNCTION ''COUNT'') 14)"
    by code_simp
  ultimately show ?thesis by blast
qed

end
